theory Spec2Isabelle
  imports Complex_Main
begin

section \<open>Text: characters, classes and the string methods the source calls\<close>

text \<open>
  A Python \<open>str\<close> is a sequence of code points. A line is modelled as a \<^typ>\<open>string\<close>
  whose characters are the code points 0 to 255 (Latin-1), one \<^typ>\<open>char\<close> per code
  point, so \<^const>\<open>length\<close> is Python's \<open>len\<close>. This range holds every character the
  patterns of \<open>app.py\<close> name (the plus-minus sign, the diameter sign, the degree sign)
  except the two concentricity glyphs U+2316 and U+2197, which no line of the model can
  contain. Inside the range the character classes below are the interpreter's own tables.
\<close>

abbreviation PM :: char where "PM \<equiv> CHR 0xB1"     \<comment> \<open>plus-minus sign\<close>
abbreviation DIAM :: char where "DIAM \<equiv> CHR 0xD8"   \<comment> \<open>diameter sign (O with stroke)\<close>
abbreviation DEG :: char where "DEG \<equiv> CHR 0xB0"    \<comment> \<open>degree sign\<close>
abbreviation NL :: char where "NL \<equiv> CHR 0x0A"     \<comment> \<open>line feed\<close>

definition code :: "char \<Rightarrow> nat" where
  "code c = of_char c"

text \<open>\<open>\d\<close>: the decimal digits; in Latin-1 these are 0 to 9 only.\<close>

definition is_digit :: "char \<Rightarrow> bool" where
  "is_digit c = (0x30 \<le> code c \<and> code c \<le> 0x39)"

text \<open>\<open>\s\<close> and \<open>str.isspace\<close>, which \<open>strip()\<close> uses: the same table.\<close>

definition is_space :: "char \<Rightarrow> bool" where
  "is_space c = ((0x09 \<le> code c \<and> code c \<le> 0x0D) \<or> (0x1C \<le> code c \<and> code c \<le> 0x20)
     \<or> code c = 0x85 \<or> code c = 0xA0)"

text \<open>\<open>\w\<close>: alphanumeric (alphabetic, decimal, digit or numeric) or the underscore.\<close>

definition is_word :: "char \<Rightarrow> bool" where
  "is_word c = (is_digit c \<or> (0x41 \<le> code c \<and> code c \<le> 0x5A) \<or> code c = 0x5F
     \<or> (0x61 \<le> code c \<and> code c \<le> 0x7A)
     \<or> code c = 0xAA \<or> code c = 0xB2 \<or> code c = 0xB3 \<or> code c = 0xB5
     \<or> code c = 0xB9 \<or> code c = 0xBA \<or> (0xBC \<le> code c \<and> code c \<le> 0xBE)
     \<or> (0xC0 \<le> code c \<and> code c \<le> 0xD6) \<or> (0xD8 \<le> code c \<and> code c \<le> 0xF6)
     \<or> 0xF8 \<le> code c)"

text \<open>
  \<open>str.upper()\<close>, one character at a time. The sharp s becomes two letters. The micro sign
  and the y with diaeresis have their capitals outside Latin-1 (U+039C, U+0178); both
  capitals are letters that no test of the source names, so the model leaves these two
  characters as they are: every test made on the upper-cased line gives the same answer.
\<close>

definition upper_char :: "char \<Rightarrow> string" where
  "upper_char c =
     (if (0x61 \<le> code c \<and> code c \<le> 0x7A) \<or> (0xE0 \<le> code c \<and> code c \<le> 0xF6)
         \<or> (0xF8 \<le> code c \<and> code c \<le> 0xFE)
      then [char_of (code c - 0x20)]
      else if code c = 0xDF then ''SS''
      else [c])"

definition upper :: "string \<Rightarrow> string" where
  "upper s = concat (map upper_char s)"

definition strip :: "string \<Rightarrow> string" where
  "strip s = rev (dropWhile is_space (rev (dropWhile is_space s)))"

text \<open>\<open>needle in hay\<close> and \<open>hay.startswith(needle)\<close> on strings.\<close>

fun startswith :: "string \<Rightarrow> string \<Rightarrow> bool" where
  "startswith hay [] = True"
| "startswith [] (n # ns) = False"
| "startswith (h # hs) (n # ns) = (h = n \<and> startswith hs ns)"

fun contains :: "string \<Rightarrow> string \<Rightarrow> bool" where
  "contains [] needle = (needle = [])"
| "contains (h # hs) needle = (startswith (h # hs) needle \<or> contains hs needle)"

text \<open>\<open>s.replace(' ', '')\<close>.\<close>

definition remove_spaces :: "string \<Rightarrow> string" where
  "remove_spaces s = filter (\<lambda>c. c \<noteq> CHR '' '') s"

text \<open>\<open>s.split(sep)\<close> for a one-character separator, and \<open>s.split(sep, 1)\<close>.\<close>

fun split_on :: "char \<Rightarrow> string \<Rightarrow> string list" where
  "split_on sep [] = [[]]"
| "split_on sep (c # s) =
     (if c = sep then [] # split_on sep s
      else (case split_on sep s of [] \<Rightarrow> [[c]] | p # ps \<Rightarrow> (c # p) # ps))"

fun split_once :: "char \<Rightarrow> string \<Rightarrow> string list" where
  "split_once sep [] = [[]]"
| "split_once sep (c # s) =
     (if c = sep then [[], s]
      else (case split_once sep s of [] \<Rightarrow> [[c]] | p # ps \<Rightarrow> (c # p) # ps))"

text \<open>
  \<open>str.splitlines()\<close>: a line ends at \<open>\r\n\<close>, or at one of the line boundaries
  (in Latin-1: LF, VT, FF, CR, FS, GS, RS, NEL); the boundary is dropped and a final
  boundary opens no empty line.
\<close>

definition is_linebreak :: "char \<Rightarrow> bool" where
  "is_linebreak c = ((0x0A \<le> code c \<and> code c \<le> 0x0D) \<or> (0x1C \<le> code c \<and> code c \<le> 0x1E)
     \<or> code c = 0x85)"

fun splitlines_acc :: "string \<Rightarrow> string \<Rightarrow> string list" where
  "splitlines_acc cur [] = (if cur = [] then [] else [rev cur])"
| "splitlines_acc cur (c # s) =
     (if is_linebreak c then
        rev cur # (case s of
                     d # s' \<Rightarrow> if c = CHR 0x0D \<and> d = CHR 0x0A then splitlines_acc [] s'
                               else splitlines_acc [] s
                   | [] \<Rightarrow> [])
      else splitlines_acc (c # cur) s)"

definition splitlines :: "string \<Rightarrow> string list" where
  "splitlines s = splitlines_acc [] s"

section \<open>Regular expressions as \<open>re\<close> runs them\<close>

text \<open>
  The patterns of \<open>app.py\<close> are sequences of single characters, character classes under
  the greedy quantifiers \<open>*\<close> and \<open>+\<close>, capture groups that are neither nested nor
  quantified, \<open>^\<close> and \<open>\b\<close>. A pattern is the list of these items in the order written.
  The matcher backtracks as \<open>re\<close> does: a quantifier first takes as many characters as
  it can and gives them back one at a time while the rest of the pattern fails.
\<close>

datatype cset = Digit | Space | Word | Chr char

datatype atom = Is cset | Dot | OneOf "cset list" | NoneOf "cset list"

datatype item = One atom | Star atom | Plus atom | Open | Close | Bol | Wordb

type_synonym regex = "item list"

fun cset_mem :: "cset \<Rightarrow> char \<Rightarrow> bool" where
  "cset_mem Digit c = is_digit c"
| "cset_mem Space c = is_space c"
| "cset_mem Word c = is_word c"
| "cset_mem (Chr d) c = (c = d)"

fun atom_mem :: "atom \<Rightarrow> char \<Rightarrow> bool" where
  "atom_mem (Is k) c = cset_mem k c"
| "atom_mem Dot c = (c \<noteq> NL)"
| "atom_mem (OneOf ks) c = list_ex (\<lambda>k. cset_mem k c) ks"
| "atom_mem (NoneOf ks) c = (\<not> list_ex (\<lambda>k. cset_mem k c) ks)"

text \<open>
  The captures of a match in progress: the groups already closed, in order, and the
  text of the group that is open, if one is.
\<close>

type_synonym caps = "string list \<times> string option"

fun consume :: "char \<Rightarrow> caps \<Rightarrow> caps" where
  "consume c (gs, None) = (gs, None)"
| "consume c (gs, Some g) = (gs, Some (g @ [c]))"

text \<open>\<open>\b\<close>: exactly one of the characters before and after the position is a word character.\<close>

fun word_before :: "char option \<Rightarrow> bool" where
  "word_before None = False"
| "word_before (Some c) = is_word c"

fun word_after :: "string \<Rightarrow> bool" where
  "word_after [] = False"
| "word_after (c # s) = is_word c"

text \<open>
  \<open>rmatch r prev s caps\<close> matches the pattern \<open>r\<close> at a position of the subject: \<open>prev\<close>
  is the character before the position (\<open>None\<close> at the start of the string) and \<open>s\<close> the
  text from the position on. The result is the list of captured groups of the first match
  in backtracking order, or \<open>None\<close> when the pattern does not match there.
\<close>

fun rmatch :: "regex \<Rightarrow> char option \<Rightarrow> string \<Rightarrow> caps \<Rightarrow> string list option" where
  "rmatch [] prev s (gs, cur) = Some gs"
| "rmatch (One a # r) prev [] caps = None"
| "rmatch (One a # r) prev (c # s) caps =
     (if atom_mem a c then rmatch r (Some c) s (consume c caps) else None)"
| "rmatch (Plus a # r) prev [] caps = None"
| "rmatch (Plus a # r) prev (c # s) caps =
     (if atom_mem a c then rmatch (Star a # r) (Some c) s (consume c caps) else None)"
| "rmatch (Star a # r) prev [] caps = rmatch r prev [] caps"
| "rmatch (Star a # r) prev (c # s) caps =
     (if atom_mem a c then
        (case rmatch (Star a # r) (Some c) s (consume c caps) of
           Some m \<Rightarrow> Some m
         | None \<Rightarrow> rmatch r prev (c # s) caps)
      else rmatch r prev (c # s) caps)"
| "rmatch (Open # r) prev s (gs, cur) = rmatch r prev s (gs, Some [])"
| "rmatch (Close # r) prev s (gs, cur) =
     rmatch r prev s (gs @ [case cur of Some g \<Rightarrow> g | None \<Rightarrow> []], None)"
| "rmatch (Bol # r) prev s caps = (if prev = None then rmatch r prev s caps else None)"
| "rmatch (Wordb # r) prev s caps =
     (if word_before prev \<noteq> word_after s then rmatch r prev s caps else None)"

text \<open>\<open>re.match\<close>: at the start of the string only.\<close>

definition re_match :: "regex \<Rightarrow> string \<Rightarrow> string list option" where
  "re_match r s = rmatch r None s ([], None)"

text \<open>\<open>re.search\<close>: the first position, from the left, where the pattern matches.\<close>

fun search_from :: "regex \<Rightarrow> char option \<Rightarrow> string \<Rightarrow> string list option" where
  "search_from r prev [] = rmatch r prev [] ([], None)"
| "search_from r prev (c # s) =
     (case rmatch r prev (c # s) ([], None) of
        Some m \<Rightarrow> Some m
      | None \<Rightarrow> search_from r (Some c) s)"

definition re_search :: "regex \<Rightarrow> string \<Rightarrow> string list option" where
  "re_search r s = search_from r None s"

text \<open>The number of capture groups of a pattern.\<close>

fun n_close :: "regex \<Rightarrow> nat" where
  "n_close [] = 0"
| "n_close (i # r) = (if i = Close then Suc (n_close r) else n_close r)"

section \<open>Exceptions and the built-in conversions\<close>

datatype error = ValueError | ZeroDivisionError | IndexError

definition and_then :: "error + 'a \<Rightarrow> ('a \<Rightarrow> error + 'b) \<Rightarrow> error + 'b" where
  "and_then x f = (case x of Inl e \<Rightarrow> Inl e | Inr v \<Rightarrow> f v)"

text \<open>\<open>m.group(n)\<close> for \<open>n \<ge> 1\<close>: IndexError when the pattern has no such group.\<close>

definition group :: "string list \<Rightarrow> nat \<Rightarrow> error + string" where
  "group m n = (if 1 \<le> n \<and> n \<le> length m then Inr (m ! (n - 1)) else Inl IndexError)"

text \<open>\<open>a, b = parts\<close>: ValueError unless there are exactly two parts.\<close>

fun unpack2 :: "string list \<Rightarrow> error + (string \<times> string)" where
  "unpack2 [a, b] = Inr (a, b)"
| "unpack2 parts = Inl ValueError"

definition digits_val :: "string \<Rightarrow> nat" where
  "digits_val ds = foldl (\<lambda>n c. 10 * n + (code c - 0x30)) 0 ds"

text \<open>
  \<open>int(s)\<close> in base ten. The whitespace \<open>int\<close> drops around the number is not quite
  that of \<open>strip()\<close>: the four separators U+001C to U+001F are not dropped. One sign is
  allowed, the digits may be grouped by single underscores, and the interpreter refuses
  (with ValueError) a number of more than 4300 digits, its default limit.
\<close>

definition is_int_space :: "char \<Rightarrow> bool" where
  "is_int_space c = ((0x09 \<le> code c \<and> code c \<le> 0x0D) \<or> code c = 0x20
     \<or> code c = 0x85 \<or> code c = 0xA0)"

definition int_max_str_digits :: nat where
  "int_max_str_digits = 4300"

definition int_body :: "string \<Rightarrow> error + int" where
  "int_body b =
     (let parts = split_on CHR ''_'' b in
      if list_all (\<lambda>p. p \<noteq> [] \<and> list_all is_digit p) parts
         \<and> length (concat parts) \<le> int_max_str_digits
      then Inr (int (digits_val (concat parts)))
      else Inl ValueError)"

definition py_int :: "string \<Rightarrow> error + int" where
  "py_int s =
     (case rev (dropWhile is_int_space (rev (dropWhile is_int_space s))) of
        [] \<Rightarrow> Inl ValueError
      | c # b \<Rightarrow>
          if c = CHR ''-'' then and_then (int_body b) (\<lambda>n. Inr (- n))
          else if c = CHR ''+'' then int_body b
          else int_body (c # b))"

text \<open>
  \<open>float(s)\<close>. The source applies it only to text cut out of a match of a nominal
  pattern: digits, at most one point, and for the mixed-number pattern possibly one
  whitespace character between digits. On such text \<open>float\<close> accepts digits with an
  optional point and raises ValueError otherwise, and that is what the model does; signs,
  exponents and the other spellings \<open>float\<close> reads cannot reach it. The value is the exact
  rational the text denotes; Python rounds it to the nearest double.
\<close>

definition py_float :: "string \<Rightarrow> error + rat" where
  "py_float s =
     (case split_on CHR ''.'' s of
        [a] \<Rightarrow> if a \<noteq> [] \<and> list_all is_digit a then Inr (of_nat (digits_val a))
               else Inl ValueError
      | [a, b] \<Rightarrow>
          if (a \<noteq> [] \<or> b \<noteq> []) \<and> list_all is_digit a \<and> list_all is_digit b
          then Inr (of_nat (digits_val a) + of_nat (digits_val b) / 10 ^ length b)
          else Inl ValueError
      | _ \<Rightarrow> Inl ValueError)"

definition py_div :: "rat \<Rightarrow> rat \<Rightarrow> error + rat" where
  "py_div a b = (if b = 0 then Inl ZeroDivisionError else Inr (a / b))"

section \<open>\<open>parse_dimension\<close>\<close>

abbreviation digits :: item where "digits \<equiv> Plus (Is Digit)"
abbreviation lit :: "char \<Rightarrow> item" where "lit c \<equiv> One (Is (Chr c))"

definition nominal_patterns :: "regex list" where
  "nominal_patterns =
     [ [Open, digits, lit CHR ''.'', digits, Close],
       [Open, digits, Close],
       [Open, digits, lit CHR ''/'', digits, Close],
       [Open, digits, One (Is Space), digits, lit CHR ''/'', digits, Close] ]"

definition tol_patterns :: "regex list" where
  "tol_patterns =
     [ [Open, lit PM, Star (Is Space), digits, lit CHR ''.'', digits, Close],
       [Open, lit PM, Star (Is Space), digits, Close],
       [Open, One (OneOf [Chr CHR ''+'']), digits, lit CHR ''.'', digits, lit CHR ''/'',
        lit CHR ''-'', digits, lit CHR ''.'', digits, Close],
       [Open, One (OneOf [Chr CHR ''+'']), digits, lit CHR ''/'', lit CHR ''-'', digits, Close],
       [Open, One (OneOf [Chr CHR ''+'', Chr CHR ''-'']), digits, lit CHR ''.'', digits, Close],
       [Open, One (OneOf [Chr CHR ''+'', Chr CHR ''-'']), digits, Close] ]"

text \<open>The body of the \<open>try\<close> in the nominal loop, for one match.\<close>

definition nominal_of_match :: "string list \<Rightarrow> error + rat" where
  "nominal_of_match m_val =
     and_then (group m_val 1) (\<lambda>val_str.
       if CHR ''/'' \<in> set val_str then
         (if CHR '' '' \<in> set val_str then
            and_then (unpack2 (split_once CHR '' '' val_str)) (\<lambda>(whole, frac).
            and_then (unpack2 (split_on CHR ''/'' frac)) (\<lambda>(num, den).
            and_then (py_float whole) (\<lambda>w.
            and_then (py_float num) (\<lambda>n.
            and_then (py_float den) (\<lambda>d.
            and_then (py_div n d) (\<lambda>q. Inr (w + q)))))))
          else
            and_then (unpack2 (split_on CHR ''/'' val_str)) (\<lambda>(num, den).
            and_then (py_float num) (\<lambda>n.
            and_then (py_float den) (\<lambda>d. py_div n d))))
       else py_float val_str)"

text \<open>
  The nominal loop: the first pattern that is found and converts gives the value;
  ValueError and ZeroDivisionError move on to the next pattern, any other exception
  leaves the function.
\<close>

fun nominal_loop :: "regex list \<Rightarrow> string \<Rightarrow> error + rat option" where
  "nominal_loop [] line = Inr None"
| "nominal_loop (pattern # rest) line =
     (case re_search pattern line of
        None \<Rightarrow> nominal_loop rest line
      | Some m_val \<Rightarrow>
          (case nominal_of_match m_val of
             Inr v \<Rightarrow> Inr (Some v)
           | Inl e \<Rightarrow> if e = ValueError \<or> e = ZeroDivisionError then nominal_loop rest line
                      else Inl e))"

text \<open>The tolerance loop; \<open>tol\<close> is the value the variable holds before the loop.\<close>

fun tol_loop :: "regex list \<Rightarrow> string \<Rightarrow> string \<Rightarrow> error + string" where
  "tol_loop [] line tol = Inr tol"
| "tol_loop (pattern # rest) line tol =
     (case re_search pattern line of
        None \<Rightarrow> tol_loop rest line tol
      | Some m_tol \<Rightarrow> and_then (group m_tol 1) (\<lambda>g. Inr (remove_spaces g)))"

definition thread_pattern :: regex where
  "thread_pattern = [lit CHR ''M'', digits]"

definition chamfer_pattern :: regex where
  "chamfer_pattern =
     [digits, Star (Is Space), One (OneOf [Chr CHR ''X'', Chr CHR ''x'']), Star (Is Space),
      digits, lit DEG]"

definition found :: "regex \<Rightarrow> string \<Rightarrow> bool" where
  "found r s = (re_search r s \<noteq> None)"

text \<open>
  The tests of the \<open>if\<close>/\<open>elif\<close> chain that sets \<open>desc\<close> and \<open>inst\<close>, one per
  branch. (The two concentricity glyphs of the last test lie outside the characters of
  the model, so only the two words remain of it.)
\<close>

definition diameter_mark :: "string \<Rightarrow> bool" where
  "diameter_mark line =
     (list_ex (contains line) [[DIAM], ''DIA'', ''DIAM''] \<or> contains (upper line) ''DIAMETER'')"

definition radius_mark :: "string \<Rightarrow> bool" where
  "radius_mark line =
     (startswith line ''R'' \<or> contains (upper line) ''RADIUS'' \<or> contains line '' R '')"

definition thread_mark :: "string \<Rightarrow> bool" where
  "thread_mark line = (found thread_pattern line \<or> contains (upper line) ''THREAD'')"

definition chamfer_mark :: "string \<Rightarrow> bool" where
  "chamfer_mark line =
     ((contains line [DEG] \<and> list_ex (contains (upper line)) [''X'', ''CHAM'', ''CHAMFER''])
      \<or> found chamfer_pattern line)"

definition angle_mark :: "string \<Rightarrow> bool" where
  "angle_mark line =
     (contains line [DEG] \<or> contains (upper line) ''ANGLE'' \<or> contains (upper line) ''DEG'')"

definition roughness_mark :: "string \<Rightarrow> bool" where
  "roughness_mark line =
     (list_ex (contains line) [''Ra'', ''Rz'', ''Rt''] \<or> contains (upper line) ''SURFACE'')"

definition runout_mark :: "string \<Rightarrow> bool" where
  "runout_mark line = (contains (upper line) ''CONC'' \<or> contains (upper line) ''RUNOUT'')"

definition classify :: "string \<Rightarrow> string \<times> string" where
  "classify line =
     (if diameter_mark line then (''Diameter'', ''DVC'')
      else if radius_mark line then (''Radius'', ''VMS/IMM'')
      else if thread_mark line then (''Thread'', ''Thread Gauge'')
      else if chamfer_mark line then (''Chamfer'', ''VMS/IMM'')
      else if angle_mark line then (''Angle'', ''VMS/IMM'')
      else if roughness_mark line then (''Surface Roughness'', ''Surface Tester'')
      else if runout_mark line then (''Concentricity/Runout'', ''CMM'')
      else (''Length'', ''DVC''))"

text \<open>The critical / specification / key flag, and its tests.\<close>

definition critical_mark :: "string \<Rightarrow> bool" where
  "critical_mark line =
     (found [Wordb, lit CHR ''C'', Wordb] (upper line) \<or> contains (upper line) ''CRITICAL'')"

definition spec_mark :: "string \<Rightarrow> bool" where
  "spec_mark line =
     (found [Wordb, lit CHR ''S'', Wordb] (upper line) \<or> contains (upper line) ''SPEC'')"

definition key_mark :: "string \<Rightarrow> bool" where
  "key_mark line = (contains (upper line) ''KEY'' \<or> contains (upper line) ''MAJOR'')"

definition inspection_type :: "string \<Rightarrow> string" where
  "inspection_type line =
     (if critical_mark line then ''C''
      else if spec_mark line then ''S''
      else if key_mark line then ''K''
      else [])"

text \<open>
  \<open>parse_dimension\<close> returns \<open>(desc, nominal, tol, typ, inst)\<close>. The tolerance variable
  starts at the constant the source writes, plus-minus 0.10.
\<close>

type_synonym parsed = "string \<times> rat option \<times> string \<times> string \<times> string"

definition parse_dimension :: "string \<Rightarrow> error + parsed" where
  "parse_dimension line0 =
     (let line = strip line0 in
      and_then (nominal_loop nominal_patterns line) (\<lambda>nominal.
      and_then (tol_loop tol_patterns line (PM # ''0.10'')) (\<lambda>tol.
        let (desc, inst) = classify line;
            typ = inspection_type line
        in Inr (desc, nominal, tol, typ, inst))))"

section \<open>\<open>extract_dimensions_from_pdf\<close>\<close>

text \<open>
  A row of \<open>data\<close> is the list \<open>[sr_no, desc, nominal, tol, typ, inst, "Page n"]\<close>; the
  fields are named after the columns the application gives them.
\<close>

record row =
  sr_no :: int
  parameter :: string
  nominal_value :: "rat option"
  tolerance :: string
  type_cs :: string
  instrument :: string
  page_ref :: string

text \<open>\<open>str(n)\<close> for a page number, and the f-string \<open>f"Page {page_num}"\<close>.\<close>

fun str_nat :: "nat \<Rightarrow> string" where
  "str_nat n =
     (if n < 10 then [char_of (0x30 + n)]
      else str_nat (n div 10) @ [char_of (0x30 + n mod 10)])"

definition page_label :: "nat \<Rightarrow> string" where
  "page_label page_num = ''Page '' @ str_nat page_num"

text \<open>The four balloon patterns, named after the comments of the source.\<close>

abbreviation seps :: atom where
  "seps \<equiv> OneOf [Chr CHR ''.'', Chr CHR ''-'', Chr CHR '':'']"

abbreviation filler :: atom where
  "filler \<equiv> NoneOf [Digit, Word]"

definition balloon_standard :: regex where
  "balloon_standard = [Bol, Open, digits, Close, Plus (Is Space), Open, Plus Dot, Close]"

definition balloon_parens :: regex where
  "balloon_parens =
     [Bol, lit CHR ''('', Open, digits, Close, lit CHR '')'', Star (Is Space),
      Open, Plus Dot, Close]"

definition balloon_separator :: regex where
  "balloon_separator =
     [Bol, Open, digits, Close, One seps, Star (Is Space), Open, Plus Dot, Close]"

definition balloon_flexible :: regex where
  "balloon_flexible =
     [Open, digits, Close, Star (Is Space), Star filler, Open, Plus Dot, Close]"

definition balloon_patterns :: "regex list" where
  "balloon_patterns = [balloon_standard, balloon_parens, balloon_separator, balloon_flexible]"

text \<open>
  The match of the first pattern, in order, that matches a line at all (whatever its
  remainder): the notion the specification uses for the segmentation.
\<close>

fun first_match :: "regex list \<Rightarrow> string \<Rightarrow> string list option" where
  "first_match [] line = None"
| "first_match (p # ps) line =
     (case re_match p line of Some m \<Rightarrow> Some m | None \<Rightarrow> first_match ps line)"

text \<open>
  The body of the \<open>try\<close> for one matching pattern: \<open>Some\<close> row when a row is appended
  (the loop over the patterns then breaks), \<open>None\<close> when the text is too short and the
  body ends without appending.
\<close>

definition balloon_try :: "string list \<Rightarrow> nat \<Rightarrow> error + row option" where
  "balloon_try m page_num =
     and_then (group m 1) (\<lambda>g1.
     and_then (py_int g1) (\<lambda>n.
     and_then (group m 2) (\<lambda>g2.
       let dim_text = strip g2 in
       if dim_text \<noteq> [] \<and> length dim_text > 1 then
         and_then (parse_dimension dim_text) (\<lambda>(desc, nominal, tol, typ, inst).
           Inr (Some \<lparr>sr_no = n, parameter = desc, nominal_value = nominal, tolerance = tol,
                      type_cs = typ, instrument = inst, page_ref = page_label page_num\<rparr>))
       else Inr None)))"

text \<open>
  The loop over the balloon patterns for one stripped, non-empty line. A pattern that
  does not match, a body that appends nothing, and a ValueError or IndexError all lead
  to the next pattern.
\<close>

fun balloon_loop :: "regex list \<Rightarrow> string \<Rightarrow> nat \<Rightarrow> error + row option" where
  "balloon_loop [] line page_num = Inr None"
| "balloon_loop (pattern # rest) line page_num =
     (case re_match pattern line of
        None \<Rightarrow> balloon_loop rest line page_num
      | Some m \<Rightarrow>
          (case balloon_try m page_num of
             Inr (Some r) \<Rightarrow> Inr (Some r)
           | Inr None \<Rightarrow> balloon_loop rest line page_num
           | Inl e \<Rightarrow> if e = ValueError \<or> e = IndexError then balloon_loop rest line page_num
                      else Inl e))"

text \<open>The loop over the lines of one extraction method; \<open>data\<close> is threaded through.\<close>

fun process_lines :: "string list \<Rightarrow> nat \<Rightarrow> row list \<Rightarrow> error + row list" where
  "process_lines [] page_num data = Inr data"
| "process_lines (l # ls) page_num data =
     (let line = strip l in
      if line = [] then process_lines ls page_num data
      else (case balloon_loop balloon_patterns line page_num of
              Inl e \<Rightarrow> Inl e
            | Inr None \<Rightarrow> process_lines ls page_num data
            | Inr (Some r) \<Rightarrow> process_lines ls page_num (data @ [r])))"

text \<open>
  What PyMuPDF returns for a page, in the three forms the source asks for. In the
  \<open>dict\<close> form every level is a dictionary whose entry may be absent (\<open>None\<close>): the
  \<open>blocks\<close> of the page, the \<open>lines\<close> of a block, the \<open>spans\<close> of a line, the \<open>text\<close>
  of a span. In the \<open>blocks\<close> form a block is a tuple whose entry 4 is its text;
  \<open>None\<close> stands for a tuple of at most four entries.
\<close>

type_synonym span = "string option"
type_synonym dline = "span list option"
type_synonym dblock = "dline list option"

record page =
  page_text :: string
  page_dict :: "dblock list option"
  page_blocks :: "string option list"

definition span_lines :: "span \<Rightarrow> string list" where
  "span_lines sp =
     (case sp of None \<Rightarrow> [] | Some t \<Rightarrow> if strip t \<noteq> [] then [strip t] else [])"

definition dict_lines :: "dblock list option \<Rightarrow> string list" where
  "dict_lines d =
     concat (map (\<lambda>block. case block of
                    None \<Rightarrow> []
                  | Some ls \<Rightarrow>
                      concat (map (\<lambda>line. concat (map span_lines
                                     (case line of None \<Rightarrow> [] | Some sps \<Rightarrow> sps))) ls))
       (case d of None \<Rightarrow> [] | Some bs \<Rightarrow> bs))"

definition block_lines :: "string option list \<Rightarrow> string list" where
  "block_lines bs = concat (map (\<lambda>b. case b of None \<Rightarrow> [] | Some t \<Rightarrow> [t]) bs)"

text \<open>The lines of the three methods, in the order of \<open>text_methods\<close>.\<close>

definition text_methods :: "page \<Rightarrow> string list list" where
  "text_methods p =
     [splitlines (page_text p), dict_lines (page_dict p), block_lines (page_blocks p)]"

text \<open>The loop over the methods of one page, with the \<open>if data: break\<close> after each.\<close>

fun methods_loop :: "string list list \<Rightarrow> nat \<Rightarrow> row list \<Rightarrow> error + row list" where
  "methods_loop [] page_num data = Inr data"
| "methods_loop (lines # rest) page_num data =
     (case process_lines lines page_num data of
        Inl e \<Rightarrow> Inl e
      | Inr data' \<Rightarrow> if data' \<noteq> [] then Inr data' else methods_loop rest page_num data')"

fun pages_loop :: "page list \<Rightarrow> nat \<Rightarrow> row list \<Rightarrow> error + row list" where
  "pages_loop [] page_num data = Inr data"
| "pages_loop (p # ps) page_num data =
     (case methods_loop (text_methods p) page_num data of
        Inl e \<Rightarrow> Inl e
      | Inr data' \<Rightarrow> pages_loop ps (Suc page_num) data')"

text \<open>The document is the list of its pages; pages are numbered from 1.\<close>

definition extract_dimensions_from_pdf :: "page list \<Rightarrow> error + row list" where
  "extract_dimensions_from_pdf doc = pages_loop doc 1 []"

section \<open>The application around the extraction\<close>

text \<open>
  The sidebar gives three settings. The script then calls
  \<open>extract_dimensions_from_pdf(uploaded_file)\<close>: none of the settings is passed on.
\<close>

record config =
  show_preview :: bool
  default_tolerance :: string
  include_page_ref :: bool

definition app_data :: "config \<Rightarrow> page list \<Rightarrow> error + row list" where
  "app_data cfg uploaded_file = extract_dimensions_from_pdf uploaded_file"

section \<open>The extraction policy as the specification words it\<close>

text \<open>
  The specification describes the choice of method document-wide: run the first method
  over all pages, and only if no row resulted run the second over all pages, then the
  third. \<open>spec_extract\<close> follows these words, with the same per-line processing, so that
  it can be compared with \<open>extract_dimensions_from_pdf\<close>.
\<close>

fun spec_pages :: "(page \<Rightarrow> string list) \<Rightarrow> page list \<Rightarrow> nat \<Rightarrow> row list \<Rightarrow> error + row list"
  where
  "spec_pages method [] page_num data = Inr data"
| "spec_pages method (p # ps) page_num data =
     (case process_lines (method p) page_num data of
        Inl e \<Rightarrow> Inl e
      | Inr data' \<Rightarrow> spec_pages method ps (Suc page_num) data')"

fun spec_strategies :: "(page \<Rightarrow> string list) list \<Rightarrow> page list \<Rightarrow> error + row list" where
  "spec_strategies [] doc = Inr []"
| "spec_strategies (method # rest) doc =
     (case spec_pages method doc 1 [] of
        Inl e \<Rightarrow> Inl e
      | Inr data \<Rightarrow> if data \<noteq> [] then Inr data else spec_strategies rest doc)"

definition spec_extract :: "page list \<Rightarrow> error + row list" where
  "spec_extract doc =
     spec_strategies
       [\<lambda>p. splitlines (page_text p), \<lambda>p. dict_lines (page_dict p),
        \<lambda>p. block_lines (page_blocks p)] doc"

section \<open>Properties of the matcher\<close>

lemma fst_consume [simp]: "fst (consume c caps) = fst caps"
  by (cases caps; cases "snd caps") auto

lemma rmatch_groups:
  "rmatch r prev s caps = Some m \<Longrightarrow>
     length m = length (fst caps) + n_close r \<and> take (length (fst caps)) m = fst caps"
proof (induction r prev s caps arbitrary: m rule: rmatch.induct)
  case (7 a r prev c s caps)
  then show ?case by (auto split: if_splits option.splits)
next
  case (9 r prev s gs cur)
  then have h: "length m = length (gs @ [case cur of Some g \<Rightarrow> g | None \<Rightarrow> []]) + n_close r"
    and t: "take (length (gs @ [case cur of Some g \<Rightarrow> g | None \<Rightarrow> []])) m = gs @ [case cur of Some g \<Rightarrow> g | None \<Rightarrow> []]"
    by auto
  from t have "take (length gs) (take (Suc (length gs)) m) = gs"
    by simp
  then have "take (length gs) m = gs" by (simp add: min_def)
  with h show ?case by simp
qed (auto split: if_splits)

lemma rmatch_close_nth:
  assumes "rmatch (Close # r) prev s (gs, Some g) = Some m"
  shows "m ! length gs = g"
proof -
  from assms have "rmatch r prev s (gs @ [g], None) = Some m" by simp
  from rmatch_groups[OF this] have "take (Suc (length gs)) m = gs @ [g]" and "length gs < length m"
    by auto
  then have "take (Suc (length gs)) m ! length gs = g" by simp
  then show ?thesis by simp
qed

lemma rmatch_star_close:
  "rmatch (Star a # Close # r) prev s (gs, Some g) = Some m \<Longrightarrow>
     \<exists>g'. list_all (atom_mem a) g' \<and> m ! length gs = g @ g'"
proof (induction s arbitrary: prev g)
  case Nil
  then have "rmatch (Close # r) prev [] (gs, Some g) = Some m" by simp
  from rmatch_close_nth[OF this] show ?case by (intro exI[of _ "[]"]) simp
next
  case (Cons c s)
  show ?case
  proof (cases "atom_mem a c \<and> rmatch (Star a # Close # r) (Some c) s (gs, Some (g @ [c])) = Some m")
    case True
    with Cons.IH[of "Some c" "g @ [c]"] obtain g' where
      "list_all (atom_mem a) g'" "m ! length gs = (g @ [c]) @ g'" by auto
    with True show ?thesis by (intro exI[of _ "c # g'"]) simp
  next
    case False
    with Cons.prems have "rmatch (Close # r) prev (c # s) (gs, Some g) = Some m"
      by (auto split: if_splits option.splits)
    from rmatch_close_nth[OF this] show ?thesis by (intro exI[of _ "[]"]) simp
  qed
qed

lemma rmatch_group_plus:
  assumes "rmatch (Open # Plus a # Close # r) prev s (gs, cur) = Some m"
  shows "m ! length gs \<noteq> [] \<and> list_all (atom_mem a) (m ! length gs)"
proof -
  from assms obtain c s' where s: "s = c # s'" and c: "atom_mem a c"
    and m: "rmatch (Star a # Close # r) (Some c) s' (gs, Some [c]) = Some m"
    by (cases s) (auto split: if_splits)
  from rmatch_star_close[OF m] c show ?thesis by auto
qed

lemma digit_not_int_space: "is_digit c \<Longrightarrow> \<not> is_int_space c"
  by (auto simp: is_digit_def is_int_space_def)

lemma split_on_none: "sep \<notin> set s \<Longrightarrow> split_on sep s = [s]"
  by (induction s) auto

lemma digit_not_sign: "is_digit c \<Longrightarrow> c \<noteq> CHR ''_'' \<and> c \<noteq> CHR ''-'' \<and> c \<noteq> CHR ''+''"
  by (auto simp: is_digit_def code_def)

lemma dropWhile_hd_id: "xs \<noteq> [] \<Longrightarrow> \<not> P (hd xs) \<Longrightarrow> dropWhile P xs = xs"
  by (cases xs) auto

lemma py_int_digits:
  assumes "ds \<noteq> []" "list_all is_digit ds"
  shows "py_int ds = (if length ds \<le> int_max_str_digits then Inr (int (digits_val ds))
                      else Inl ValueError)"
proof -
  from assms have "is_digit (hd ds)" "is_digit (last ds)"
    by (auto simp: list_all_iff)
  with assms have st: "rev (dropWhile is_int_space (rev (dropWhile is_int_space ds))) = ds"
    by (simp add: dropWhile_hd_id hd_rev digit_not_int_space)
  from assms have "CHR ''_'' \<notin> set ds" by (auto simp: list_all_iff dest: digit_not_sign)
  then have sp: "split_on CHR ''_'' ds = [ds]" by (rule split_on_none)
  obtain c b where cb: "ds = c # b" using assms by (cases ds) auto
  with \<open>is_digit (hd ds)\<close> have "c \<noteq> CHR ''-''" "c \<noteq> CHR ''+''"
    by (auto dest: digit_not_sign)
  with st sp cb assms show ?thesis
    by (simp add: py_int_def int_body_def)
qed

section \<open>No exception leaves \<open>parse_dimension\<close>\<close>

lemma search_from_groups: "search_from r prev s = Some m \<Longrightarrow> length m = n_close r"
  by (induction r prev s rule: search_from.induct)
     (auto split: option.splits dest: rmatch_groups)

lemma re_search_groups: "re_search r s = Some m \<Longrightarrow> length m = n_close r"
  by (auto simp: re_search_def dest: search_from_groups)

lemma re_match_groups: "re_match r s = Some m \<Longrightarrow> length m = n_close r"
  by (auto simp: re_match_def dest: rmatch_groups)

lemma unpack2_error: "unpack2 parts = Inl e \<Longrightarrow> e = ValueError"
  by (cases parts rule: unpack2.cases) auto

lemma py_float_error: "py_float s = Inl e \<Longrightarrow> e = ValueError"
  by (auto simp: py_float_def split: list.splits if_splits)

lemma py_div_error: "py_div a b = Inl e \<Longrightarrow> e = ZeroDivisionError"
  by (auto simp: py_div_def split: if_splits)

lemma and_then_Inl:
  "and_then x f = Inl e \<Longrightarrow> x = Inl e \<or> (\<exists>v. x = Inr v \<and> f v = Inl e)"
  by (auto simp: and_then_def split: sum.splits)

lemma nominal_of_match_error:
  assumes "1 \<le> length m_val" "nominal_of_match m_val = Inl e"
  shows "e = ValueError \<or> e = ZeroDivisionError"
proof -
  from assms(1) obtain v where g: "group m_val 1 = Inr v" by (auto simp: group_def)
  show ?thesis
    using assms(2) unfolding nominal_of_match_def g
    by (auto simp: and_then_def split: sum.splits if_splits prod.splits
             dest: unpack2_error py_float_error py_div_error)
qed

lemma nominal_loop_total:
  "list_all (\<lambda>p. 1 \<le> n_close p) pats \<Longrightarrow> \<exists>v. nominal_loop pats line = Inr v"
proof (induction pats)
  case Nil
  then show ?case by simp
next
  case (Cons p pats)
  then obtain v where v: "nominal_loop pats line = Inr v" by auto
  show ?case
  proof (cases "re_search p line")
    case None
    with v show ?thesis by simp
  next
    case (Some m)
    with Cons.prems have "1 \<le> length m" by (auto dest: re_search_groups)
    from nominal_of_match_error[OF this] show ?thesis using Some v
      by (auto split: sum.splits)
  qed
qed

lemma tol_loop_total:
  "list_all (\<lambda>p. 1 \<le> n_close p) pats \<Longrightarrow> \<exists>v. tol_loop pats line tol = Inr v"
proof (induction pats)
  case Nil
  then show ?case by simp
next
  case (Cons p pats)
  then obtain v where v: "tol_loop pats line tol = Inr v" by auto
  show ?case
  proof (cases "re_search p line")
    case None
    with v show ?thesis by simp
  next
    case (Some m)
    with Cons.prems have "1 \<le> length m" by (auto dest: re_search_groups)
    then show ?thesis using Some
      by (auto simp: group_def and_then_def)
  qed
qed

lemma nominal_patterns_groups: "list_all (\<lambda>p. 1 \<le> n_close p) nominal_patterns"
  by (simp add: nominal_patterns_def)

lemma tol_patterns_groups: "list_all (\<lambda>p. 1 \<le> n_close p) tol_patterns"
  by (simp add: tol_patterns_def)

lemma parse_dimension_Inr:
  "\<exists>nominal tol. nominal_loop nominal_patterns (strip line) = Inr nominal
     \<and> tol_loop tol_patterns (strip line) (PM # ''0.10'') = Inr tol
     \<and> parse_dimension line =
         Inr (fst (classify (strip line)), nominal, tol, inspection_type (strip line),
              snd (classify (strip line)))"
proof -
  obtain nominal where n: "nominal_loop nominal_patterns (strip line) = Inr nominal"
    using nominal_loop_total[OF nominal_patterns_groups] by blast
  obtain tol where t: "tol_loop tol_patterns (strip line) (PM # ''0.10'') = Inr tol"
    using tol_loop_total[OF tol_patterns_groups] by blast
  show ?thesis
    using n t by (simp add: parse_dimension_def and_then_def Let_def split: prod.splits)
qed

lemma nominal_loop_miss:
  "list_all (\<lambda>p. re_search p line = None) pats \<Longrightarrow> nominal_loop pats line = Inr None"
  by (induction pats) auto

lemma tol_loop_miss:
  "list_all (\<lambda>p. re_search p line = None) pats \<Longrightarrow> tol_loop pats line tol = Inr tol"
  by (induction pats) auto

section \<open>The loops of the extraction\<close>

lemma balloon_match_shape:
  assumes "p \<in> set balloon_patterns" "re_match p line = Some m"
  shows "length m = 2 \<and> m ! 0 \<noteq> [] \<and> list_all is_digit (m ! 0)"
proof -
  from assms(2) have len: "length m = n_close p" by (rule re_match_groups)
  from assms(1) have n: "n_close p = 2"
    by (auto simp: balloon_patterns_def balloon_standard_def balloon_parens_def
          balloon_separator_def balloon_flexible_def)
  from assms(1) consider
      r where "p = Bol # Open # digits # Close # r"
    | r where "p = Bol # lit CHR ''('' # Open # digits # Close # r"
    | r where "p = Open # digits # Close # r"
    by (auto simp: balloon_patterns_def balloon_standard_def balloon_parens_def
          balloon_separator_def balloon_flexible_def)
  then have "m ! 0 \<noteq> [] \<and> list_all (atom_mem (Is Digit)) (m ! 0)"
  proof cases
    case 1
    with assms(2) have "rmatch (Open # digits # Close # r) None line ([], None) = Some m"
      by (simp add: re_match_def)
    from rmatch_group_plus[OF this] show ?thesis by simp
  next
    case 2
    with assms(2) obtain c s where
      "rmatch (Open # digits # Close # r) (Some c) s ([], None) = Some m"
      by (cases line) (auto simp: re_match_def split: if_splits)
    from rmatch_group_plus[OF this] show ?thesis by simp
  next
    case 3
    with assms(2) have "rmatch (Open # digits # Close # r) None line ([], None) = Some m"
      by (simp add: re_match_def)
    from rmatch_group_plus[OF this] show ?thesis by simp
  qed
  with len n show ?thesis by (simp add: list_all_iff)
qed

lemma balloon_try_refused:
  assumes "length m = 2" "m ! 0 \<noteq> []" "list_all is_digit (m ! 0)"
    "int_max_str_digits < length (m ! 0)"
  shows "balloon_try m page_num = Inl ValueError"
  using assms py_int_digits[of "m ! 0"]
  by (auto simp: balloon_try_def group_def and_then_def Let_def)

lemma balloon_try_short:
  assumes "length m = 2" "m ! 0 \<noteq> []" "list_all is_digit (m ! 0)"
    "length (m ! 0) \<le> int_max_str_digits" "length (strip (m ! 1)) \<le> 1"
  shows "balloon_try m page_num = Inr None"
  using assms py_int_digits[of "m ! 0"]
  by (auto simp: balloon_try_def group_def and_then_def Let_def)

lemma balloon_try_long:
  assumes "length m = 2" "m ! 0 \<noteq> []" "list_all is_digit (m ! 0)"
    "length (m ! 0) \<le> int_max_str_digits" "1 < length (strip (m ! 1))"
  shows "\<exists>r. balloon_try m page_num = Inr (Some r) \<and> sr_no r = int (digits_val (m ! 0))
           \<and> parse_dimension (strip (m ! 1))
               = Inr (parameter r, nominal_value r, tolerance r, type_cs r, instrument r)
           \<and> page_ref r = page_label page_num"
proof -
  obtain nominal tol where
    "parse_dimension (strip (m ! 1)) =
       Inr (fst (classify (strip (strip (m ! 1)))), nominal, tol,
            inspection_type (strip (strip (m ! 1))), snd (classify (strip (strip (m ! 1)))))"
    using parse_dimension_Inr[of "strip (m ! 1)"] by blast
  then show ?thesis
    using assms py_int_digits[of "m ! 0"]
    by (auto simp: balloon_try_def group_def and_then_def Let_def)
qed

lemma balloon_loop_cases:
  assumes "set pats \<subseteq> set balloon_patterns"
  shows "(balloon_loop pats line page_num = Inr None
            \<and> (\<forall>p\<in>set pats. \<forall>m. re_match p line = Some m
                  \<longrightarrow> length (strip (m ! 1)) \<le> 1 \<or> int_max_str_digits < length (m ! 0)))
       \<or> (\<exists>r. balloon_loop pats line page_num = Inr (Some r) \<and> 0 \<le> sr_no r
            \<and> (\<exists>p\<in>set pats. \<exists>m. re_match p line = Some m \<and> 1 < length (strip (m ! 1))
                  \<and> length (m ! 0) \<le> int_max_str_digits))"
  using assms
proof (induction pats)
  case Nil
  then show ?case by simp
next
  case (Cons p pats)
  then have p: "p \<in> set balloon_patterns" and sub: "set pats \<subseteq> set balloon_patterns" by auto
  note IH = Cons.IH[OF sub]
  show ?case
  proof (cases "re_match p line")
    case None
    with IH show ?thesis by auto
  next
    case (Some m)
    from balloon_match_shape[OF p Some]
    have sh: "length m = 2" "m ! 0 \<noteq> []" "list_all is_digit (m ! 0)"
      by auto
    consider (refused) "int_max_str_digits < length (m ! 0)"
      | (long) "length (m ! 0) \<le> int_max_str_digits" "1 < length (strip (m ! 1))"
      | (short) "length (m ! 0) \<le> int_max_str_digits" "length (strip (m ! 1)) \<le> 1"
      by linarith
    then show ?thesis
    proof cases
      case refused
      then have "balloon_try m page_num = Inl ValueError"
        using balloon_try_refused[OF sh] by simp
      with Some refused IH show ?thesis by auto
    next
      case long
      from balloon_try_long[OF sh long, of page_num] obtain r where
        "balloon_try m page_num = Inr (Some r)" "sr_no r = int (digits_val (m ! 0))" by blast
      with Some long show ?thesis by auto
    next
      case short
      then have "balloon_try m page_num = Inr None"
        using balloon_try_short[OF sh] by simp
      with Some short IH show ?thesis by auto
    qed
  qed
qed

lemma line_discarded_iff:
  "balloon_loop balloon_patterns line page_num = Inr None
   \<longleftrightarrow> (\<forall>p\<in>set balloon_patterns. \<forall>m. re_match p line = Some m
          \<longrightarrow> length (strip (m ! 1)) \<le> 1 \<or> int_max_str_digits < length (m ! 0))"
proof -
  let ?passed = "\<forall>p\<in>set balloon_patterns. \<forall>m. re_match p line = Some m
          \<longrightarrow> length (strip (m ! 1)) \<le> 1 \<or> int_max_str_digits < length (m ! 0)"
  from balloon_loop_cases[of balloon_patterns line page_num]
  consider (none) "balloon_loop balloon_patterns line page_num = Inr None" "?passed"
    | (some) r p m where "balloon_loop balloon_patterns line page_num = Inr (Some r)"
        "p \<in> set balloon_patterns" "re_match p line = Some m"
        "1 < length (strip (m ! 1))" "length (m ! 0) \<le> int_max_str_digits"
    by blast
  then show ?thesis
  proof cases
    case none
    then show ?thesis by simp
  next
    case some
    from some(2-5) have "\<not> ?passed" by (intro notI) (drule (1) bspec, auto)
    with some(1) show ?thesis by simp
  qed
qed

lemma process_lines_rows:
  "\<exists>rows. list_all (\<lambda>r. 0 \<le> sr_no r) rows
      \<and> (\<forall>data. process_lines ls page_num data = Inr (data @ rows))"
proof (induction ls)
  case Nil
  show ?case by (intro exI[of _ "[]"]) simp
next
  case (Cons l ls)
  then obtain rows where rows: "list_all (\<lambda>r. 0 \<le> sr_no r) rows"
    "\<And>data. process_lines ls page_num data = Inr (data @ rows)" by blast
  show ?case
  proof (cases "strip l = []")
    case True
    with rows show ?thesis by (intro exI[of _ rows]) simp
  next
    case False
    from balloon_loop_cases[of balloon_patterns "strip l" page_num]
    consider "balloon_loop balloon_patterns (strip l) page_num = Inr None"
      | r where "balloon_loop balloon_patterns (strip l) page_num = Inr (Some r)" "0 \<le> sr_no r"
      by auto
    then show ?thesis
    proof cases
      case 1
      with False rows show ?thesis by (intro exI[of _ rows]) simp
    next
      case 2
      with False rows show ?thesis by (intro exI[of _ "r # rows"]) simp
    qed
  qed
qed

lemma methods_loop_one_method:
  assumes "ms \<noteq> []"
  shows "\<exists>ls\<in>set ms. \<exists>rows. methods_loop ms page_num data = Inr (data @ rows)
           \<and> process_lines ls page_num [] = Inr rows \<and> list_all (\<lambda>r. 0 \<le> sr_no r) rows"
  using assms
proof (induction ms arbitrary: data)
  case Nil
  then show ?case by simp
next
  case (Cons l ms)
  obtain rows where rows: "list_all (\<lambda>r. 0 \<le> sr_no r) rows"
    "\<And>d. process_lines l page_num d = Inr (d @ rows)"
    using process_lines_rows[of l page_num] by blast
  show ?case
  proof (cases "data @ rows \<noteq> [] \<or> ms = []")
    case True
    with rows(2)[of data] rows(2)[of "[]"] rows(1) show ?thesis by auto
  next
    case False
    then have e: "data = []" "rows = []" and ms: "ms \<noteq> []" by auto
    from Cons.IH[OF ms, of "[]"] obtain ls rows' where
      "ls \<in> set ms" "methods_loop ms page_num [] = Inr rows'"
      "process_lines ls page_num [] = Inr rows'" "list_all (\<lambda>r. 0 \<le> sr_no r) rows'" by auto
    with e rows(2)[of "[]"] show ?thesis by auto
  qed
qed

lemma methods_loop_three:
  assumes "\<And>d. process_lines l1 page_num d = Inr (d @ r1)"
    "\<And>d. process_lines l2 page_num d = Inr (d @ r2)"
    "\<And>d. process_lines l3 page_num d = Inr (d @ r3)"
  shows "methods_loop [l1, l2, l3] page_num data
         = Inr (data @ (if data \<noteq> [] \<or> r1 \<noteq> [] then r1 else if r2 \<noteq> [] then r2 else r3))"
  using assms by simp

lemma pages_loop_rows:
  "list_all (\<lambda>r. 0 \<le> sr_no r) data \<Longrightarrow>
     \<exists>rows. pages_loop doc page_num data = Inr rows \<and> list_all (\<lambda>r. 0 \<le> sr_no r) rows"
proof (induction doc arbitrary: page_num data)
  case Nil
  then show ?case by simp
next
  case (Cons p doc)
  have "text_methods p \<noteq> []" by (simp add: text_methods_def)
  from methods_loop_one_method[OF this, of page_num data] obtain rows where
    "methods_loop (text_methods p) page_num data = Inr (data @ rows)"
    "list_all (\<lambda>r. 0 \<le> sr_no r) rows" by blast
  with Cons.IH[of "data @ rows" "Suc page_num"] Cons.prems show ?case by auto
qed

section \<open>Substrings under \<open>strip\<close> and \<open>upper\<close>\<close>

lemma startswith_iff: "startswith hay needle \<longleftrightarrow> (\<exists>post. hay = needle @ post)"
  by (induction hay needle rule: startswith.induct) auto

lemma contains_iff: "contains hay needle \<longleftrightarrow> (\<exists>pre post. hay = pre @ needle @ post)"
proof (induction hay)
  case Nil
  then show ?case by auto
next
  case (Cons h hs)
  show ?case
  proof
    assume "contains (h # hs) needle"
    then consider "startswith (h # hs) needle" | "contains hs needle" by auto
    then show "\<exists>pre post. h # hs = pre @ needle @ post"
    proof cases
      case 1
      then obtain post where "h # hs = needle @ post" by (auto simp: startswith_iff)
      then have "h # hs = [] @ needle @ post" by simp
      then show ?thesis by blast
    next
      case 2
      with Cons.IH obtain pre post where "hs = pre @ needle @ post" by auto
      then have "h # hs = (h # pre) @ needle @ post" by simp
      then show ?thesis by blast
    qed
  next
    assume "\<exists>pre post. h # hs = pre @ needle @ post"
    then obtain pre post where e: "h # hs = pre @ needle @ post" by auto
    show "contains (h # hs) needle"
    proof (cases pre)
      case Nil
      with e have "startswith (h # hs) needle" by (auto simp: startswith_iff)
      then show ?thesis by simp
    next
      case (Cons a pre')
      with e have "hs = pre' @ needle @ post" by simp
      with Cons.IH have "contains hs needle" by auto
      then show ?thesis by simp
    qed
  qed
qed

lemma contains_drop_front:
  assumes "contains (c # hay) needle" "needle \<noteq> []" "hd needle \<noteq> c"
  shows "contains hay needle"
  using assms by (cases needle) auto

lemma contains_drop_back:
  assumes "contains (hay @ [c]) needle" "needle \<noteq> []" "last needle \<noteq> c"
  shows "contains hay needle"
proof -
  from assms(1) obtain pre post where e: "hay @ [c] = pre @ needle @ post"
    by (auto simp: contains_iff)
  show ?thesis
  proof (cases post rule: rev_cases)
    case Nil
    with e assms(2) have "last (hay @ [c]) = last needle" by simp
    with assms(3) show ?thesis by simp
  next
    case (snoc post' d)
    with e have "hay @ [c] = (pre @ needle @ post') @ [d]" by simp
    then have "hay = pre @ needle @ post'" by blast
    then show ?thesis by (auto simp: contains_iff)
  qed
qed

lemma contains_dropWhile:
  assumes "contains hay needle" "needle \<noteq> []" "\<not> P (hd needle)"
  shows "contains (dropWhile P hay) needle"
  using assms
proof (induction hay)
  case Nil
  then show ?case by simp
next
  case (Cons c hay)
  show ?case
  proof (cases "P c")
    case True
    with Cons.prems have "hd needle \<noteq> c" by auto
    from contains_drop_front[OF Cons.prems(1,2) this] Cons.IH Cons.prems True
    show ?thesis by simp
  next
    case False
    with Cons.prems show ?thesis by simp
  qed
qed

lemma contains_dropWhile_back:
  assumes "contains hay needle" "needle \<noteq> []" "\<not> P (last needle)"
  shows "contains (rev (dropWhile P (rev hay))) needle"
  using assms
proof (induction hay rule: rev_induct)
  case Nil
  then show ?case by simp
next
  case (snoc c hay)
  show ?case
  proof (cases "P c")
    case True
    with snoc.prems have "last needle \<noteq> c" by auto
    from contains_drop_back[OF snoc.prems(1,2) this] snoc.IH snoc.prems True
    show ?thesis by simp
  next
    case False
    with snoc.prems show ?thesis by simp
  qed
qed

lemma contains_strip:
  assumes "contains hay needle" "needle \<noteq> []" "\<not> is_space (hd needle)" "\<not> is_space (last needle)"
  shows "contains (strip hay) needle"
  unfolding strip_def
  by (intro contains_dropWhile_back contains_dropWhile assms)

lemma upper_char_space: "is_space c \<Longrightarrow> upper_char c = [c]"
  by (auto simp: upper_char_def is_space_def)

lemma upper_Cons: "upper (c # s) = upper_char c @ upper s"
  by (simp add: upper_def)

lemma upper_append: "upper (s @ t) = upper s @ upper t"
  by (simp add: upper_def)

lemma contains_upper_dropWhile:
  assumes "contains (upper hay) needle" "needle \<noteq> []" "\<not> is_space (hd needle)"
  shows "contains (upper (dropWhile is_space hay)) needle"
  using assms
proof (induction hay)
  case Nil
  then show ?case by simp
next
  case (Cons c hay)
  show ?case
  proof (cases "is_space c")
    case True
    with Cons.prems have "contains (c # upper hay) needle" "hd needle \<noteq> c"
      by (auto simp: upper_Cons upper_char_space)
    from contains_drop_front[OF this(1) Cons.prems(2) this(2)] Cons.IH Cons.prems True
    show ?thesis by simp
  next
    case False
    with Cons.prems show ?thesis by simp
  qed
qed

lemma contains_upper_dropWhile_back:
  assumes "contains (upper hay) needle" "needle \<noteq> []" "\<not> is_space (last needle)"
  shows "contains (upper (rev (dropWhile is_space (rev hay)))) needle"
  using assms
proof (induction hay rule: rev_induct)
  case Nil
  then show ?case by simp
next
  case (snoc c hay)
  show ?case
  proof (cases "is_space c")
    case True
    with snoc.prems have "contains (upper hay @ [c]) needle" "last needle \<noteq> c"
      by (auto simp: upper_append upper_Cons upper_char_space upper_def)
    from contains_drop_back[OF this(1) snoc.prems(2) this(2)] snoc.IH snoc.prems True
    show ?thesis by simp
  next
    case False
    with snoc.prems show ?thesis by simp
  qed
qed

lemma contains_upper_strip:
  assumes "contains (upper hay) needle" "needle \<noteq> []" "\<not> is_space (hd needle)" "\<not> is_space (last needle)"
  shows "contains (upper (strip hay)) needle"
  unfolding strip_def
  by (intro contains_upper_dropWhile_back contains_upper_dropWhile assms)

lemma diameter_mark_strip: "diameter_mark line \<Longrightarrow> diameter_mark (strip line)"
  unfolding diameter_mark_def
  by (auto intro!: contains_strip contains_upper_strip simp: is_space_def code_def)

section \<open>The first tolerance pattern on a plus-minus decimal\<close>

lemma dropWhile_mid:
  assumes "mid \<noteq> []" "\<not> P (hd mid)"
  shows "dropWhile P (pre @ mid @ post) = dropWhile P pre @ mid @ post"
proof -
  from assms have "dropWhile P (mid @ post) = mid @ post"
    by (cases mid) auto
  then show ?thesis by (simp add: dropWhile_append)
qed

lemma strip_mid:
  assumes "mid \<noteq> []" "\<not> is_space (hd mid)" "\<not> is_space (last mid)"
  shows "strip (pre @ mid @ post)
         = dropWhile is_space pre @ mid @ rev (dropWhile is_space (rev post))"
proof -
  have "dropWhile is_space (rev post @ rev mid @ rev (dropWhile is_space pre))
        = dropWhile is_space (rev post) @ rev mid @ rev (dropWhile is_space pre)"
    using assms by (intro dropWhile_mid) (auto simp: hd_rev)
  then show ?thesis
    using assms by (simp add: strip_def dropWhile_mid)
qed

lemma rstrip_prefix: "\<exists>ws. xs = rev (dropWhile P (rev xs)) @ ws"
proof -
  have "rev xs = takeWhile P (rev xs) @ dropWhile P (rev xs)" by simp
  then have "xs = rev (dropWhile P (rev xs)) @ rev (takeWhile P (rev xs))"
    by (metis rev_append rev_rev_ident)
  then show ?thesis by blast
qed

lemma rstrip_hd:
  assumes "xs = [] \<or> \<not> Q (hd xs)"
  shows "rev (dropWhile P (rev xs)) = [] \<or> \<not> Q (hd (rev (dropWhile P (rev xs))))"
proof (cases "rev (dropWhile P (rev xs)) = []")
  case True
  then show ?thesis by simp
next
  case False
  obtain ws where "xs = rev (dropWhile P (rev xs)) @ ws" using rstrip_prefix by blast
  with False have "hd xs = hd (rev (dropWhile P (rev xs)))" "xs \<noteq> []"
    by (metis hd_append2, metis append_is_Nil_conv)
  with assms show ?thesis by auto
qed

lemma search_skip:
  "c0 \<notin> set pre \<Longrightarrow>
     \<exists>prev'. search_from (Open # lit c0 # r) prev (pre @ c0 # s)
            = search_from (Open # lit c0 # r) prev' (c0 # s)"
proof (induction pre arbitrary: prev)
  case Nil
  show ?case by (intro exI[of _ prev]) simp
next
  case (Cons x pre)
  from Cons.prems have "x \<noteq> c0" by auto
  then have "rmatch (Open # lit c0 # r) prev (x # pre @ c0 # s) ([], None) = None" by simp
  then have "search_from (Open # lit c0 # r) prev ((x # pre) @ c0 # s)
             = search_from (Open # lit c0 # r) (Some x) (pre @ c0 # s)" by simp
  with Cons.IH[of "Some x"] Cons.prems show ?case by auto
qed

lemma pm_decimal_match:
  assumes "post = [] \<or> \<not> is_digit (hd post)"
  shows "rmatch (hd tol_patterns) prev (PM # ''0.05'' @ post) ([], None) = Some [PM # ''0.05'']"
  using assms
  by (cases post) (auto simp: tol_patterns_def is_digit_def is_space_def code_def)

lemma pm_decimal_search:
  assumes "PM \<notin> set pre" "post = [] \<or> \<not> is_digit (hd post)"
  shows "re_search (hd tol_patterns) (pre @ PM # ''0.05'' @ post) = Some [PM # ''0.05'']"
proof -
  have hd: "hd tol_patterns = Open # lit PM # tl (tl (hd tol_patterns))"
    by (simp add: tol_patterns_def)
  from search_skip[OF assms(1), of "tl (tl (hd tol_patterns))" None "''0.05'' @ post"]
  obtain prev' where
    "search_from (hd tol_patterns) None (pre @ PM # ''0.05'' @ post)
     = search_from (hd tol_patterns) prev' (PM # ''0.05'' @ post)"
    unfolding hd[symmetric] by auto
  also have "\<dots> = Some [PM # ''0.05'']"
    using pm_decimal_match[OF assms(2), of prev'] by simp
  finally show ?thesis by (simp add: re_search_def)
qed

lemma pm_decimal_tol:
  assumes "PM \<notin> set pre" "post = [] \<or> \<not> is_digit (hd post)"
  shows "tol_loop tol_patterns (pre @ PM # ''0.05'' @ post) d = Inr (PM # ''0.05'')"
proof -
  have "tol_patterns = hd tol_patterns # tl tol_patterns" by (simp add: tol_patterns_def)
  then have "tol_loop tol_patterns (pre @ PM # ''0.05'' @ post) d
      = tol_loop (hd tol_patterns # tl tol_patterns) (pre @ PM # ''0.05'' @ post) d" by simp
  also have "\<dots> = Inr (PM # ''0.05'')"
    using pm_decimal_search[OF assms]
    by (simp add: group_def and_then_def remove_spaces_def)
  finally show ?thesis .
qed

section \<open>The balloon patterns on a line without a line feed\<close>

lemma star_greedy:
  assumes "list_all (atom_mem a) run" "s = [] \<or> \<not> atom_mem a (hd s)"
    "rmatch r (if run = [] then prev else Some (last run)) s (fold consume run caps) = Some m"
  shows "rmatch (Star a # r) prev (run @ s) caps = Some m"
  using assms
proof (induction run arbitrary: prev caps)
  case Nil
  then show ?case by (cases s) auto
next
  case (Cons x run)
  from Cons.prems have x: "atom_mem a x" and run: "list_all (atom_mem a) run" by auto
  have "rmatch (Star a # r) (Some x) (run @ s) (consume x caps) = Some m"
    using Cons.prems(3) by (intro Cons.IH[OF run Cons.prems(2)]) (auto split: if_splits)
  with x show ?case by simp
qed

lemma plus_greedy:
  assumes "run \<noteq> []" "list_all (atom_mem a) run" "s = [] \<or> \<not> atom_mem a (hd s)"
    "rmatch r (Some (last run)) s (fold consume run caps) = Some m"
  shows "rmatch (Plus a # r) prev (run @ s) caps = Some m"
proof -
  from assms(1) obtain x run' where run: "run = x # run'" by (cases run) auto
  with assms have "rmatch (Star a # r) (Some x) (run' @ s) (consume x caps) = Some m"
    by (intro star_greedy) (auto split: if_splits)
  with run assms(2) show ?thesis by simp
qed

lemma star_fail:
  assumes "list_all (atom_mem a) run" "s = [] \<or> \<not> atom_mem a (hd s)"
    "\<And>u v p c. run = u @ v \<Longrightarrow> rmatch r p (v @ s) c = None"
  shows "rmatch (Star a # r) prev (run @ s) caps = None"
  using assms
proof (induction run arbitrary: prev caps)
  case Nil
  from Nil.prems(3)[of "[]" "[]"] have r: "rmatch r prev s caps = None" by simp
  show ?case
  proof (cases s)
    case Nil
    with r show ?thesis by simp
  next
    case (Cons y s')
    with Nil.prems(2) r show ?thesis by simp
  qed
next
  case (Cons x run)
  have "rmatch (Star a # r) (Some x) (run @ s) (consume x caps) = None"
  proof (rule Cons.IH)
    show "list_all (atom_mem a) run" using Cons.prems(1) by simp
    show "s = [] \<or> \<not> atom_mem a (hd s)" by (rule Cons.prems(2))
    fix u v p c assume "run = u @ v"
    then have "x # run = (x # u) @ v" by simp
    then show "rmatch r p (v @ s) c = None" by (rule Cons.prems(3))
  qed
  moreover have "rmatch r prev ((x # run) @ s) caps = None"
    by (rule Cons.prems(3)[of "[]"]) simp
  ultimately show ?case using Cons.prems(1) by simp
qed

lemma plus_fail:
  assumes "list_all (atom_mem a) run" "s = [] \<or> \<not> atom_mem a (hd s)"
    "\<And>u v p c. run = u @ v \<Longrightarrow> u \<noteq> [] \<Longrightarrow> rmatch r p (v @ s) c = None"
  shows "rmatch (Plus a # r) prev (run @ s) caps = None"
proof (cases run)
  case Nil
  with assms(2) show ?thesis by (cases s) auto
next
  case (Cons x run')
  have "rmatch (Star a # r) (Some x) (run' @ s) (consume x caps) = None"
  proof (rule star_fail)
    show "list_all (atom_mem a) run'" using assms(1) Cons by simp
    show "s = [] \<or> \<not> atom_mem a (hd s)" by (rule assms(2))
    fix u v p c assume v: "run' = u @ v"
    then have "run = (x # u) @ v" using Cons by simp
    then show "rmatch r p (v @ s) c = None" by (rule assms(3)) simp
  qed
  with Cons show ?thesis by simp
qed

lemma fold_consume_open: "fold consume run (gs, Some g) = (gs, Some (g @ run))"
  by (induction run arbitrary: g) auto

lemma fold_consume_closed: "fold consume run (gs, None) = (gs, None)"
  by (induction run) auto

lemma plus_hd_fail: "s = [] \<or> \<not> atom_mem a (hd s) \<Longrightarrow> rmatch (Plus a # r) p s c = None"
  by (cases s) auto

lemma one_hd_fail: "s = [] \<or> \<not> atom_mem a (hd s) \<Longrightarrow> rmatch (One a # r) p s c = None"
  by (cases s) auto

lemma star_giveback:
  assumes "list_all (atom_mem a) run" "atom_mem a x"
    "\<And>p c. rmatch r p [] c = None"
    "rmatch r (if run = [] then prev else Some (last run)) [x] (fold consume run caps) = Some m"
  shows "rmatch (Star a # r) prev (run @ [x]) caps = Some m"
  using assms
proof (induction run arbitrary: prev caps)
  case Nil
  then show ?case by simp
next
  case (Cons y run)
  have "rmatch (Star a # r) (Some y) (run @ [x]) (consume y caps) = Some m"
    using Cons.prems by (intro Cons.IH) (auto split: if_splits)
  with Cons.prems(1) show ?case by simp
qed

text \<open>The tail \<open>(.+)\<close> of the balloon patterns on text without a line feed.\<close>

lemma tail_group:
  assumes "R \<noteq> []" "NL \<notin> set R"
  shows "rmatch [Open, Plus Dot, Close] prev R (gs, cur) = Some (gs @ [R])"
proof -
  have "rmatch (Plus Dot # [Close]) prev (R @ []) (gs, Some []) = Some (gs @ [R])"
    using assms by (intro plus_greedy) (auto simp: list_all_iff fold_consume_open)
  then show ?thesis by simp
qed

lemma tail_group_empty: "rmatch [Open, Plus Dot, Close] prev [] caps = None"
  by (cases caps) simp

lemma digit_facts:
  "is_digit c \<Longrightarrow> \<not> is_space c"
  "is_digit c \<Longrightarrow> c \<noteq> CHR ''('' \<and> c \<noteq> CHR ''.'' \<and> c \<noteq> CHR ''-'' \<and> c \<noteq> CHR '':''"
  by (auto simp: is_digit_def is_space_def code_def)

lemma space_facts:
  "is_space c \<Longrightarrow> \<not> is_digit c \<and> \<not> is_word c"
  "is_space c \<Longrightarrow> c \<noteq> CHR ''.'' \<and> c \<noteq> CHR ''-'' \<and> c \<noteq> CHR '':''"
  by (auto simp: is_digit_def is_space_def is_word_def code_def)

lemma sep_facts:
  "c = CHR ''.'' \<or> c = CHR ''-'' \<or> c = CHR '':'' \<Longrightarrow> \<not> is_digit c \<and> \<not> is_word c \<and> \<not> is_space c"
  by (auto simp: is_digit_def is_space_def is_word_def code_def)

text \<open>A pattern that begins with the item number needs a digit first.\<close>

lemma needs_digit:
  assumes "line = [] \<or> \<not> is_digit (hd line)"
  shows "re_match balloon_standard line = None" "re_match balloon_separator line = None" "re_match balloon_flexible line = None"
  using assms
  by (cases line; simp add: re_match_def balloon_standard_def balloon_separator_def balloon_flexible_def balloon_patterns_def)+

lemma needs_paren:
  assumes "line = [] \<or> hd line \<noteq> CHR ''(''"
  shows "re_match balloon_parens line = None"
  using assms
  by (cases line; simp add: re_match_def balloon_parens_def balloon_patterns_def)

lemma standard_match:
  assumes "D \<noteq> []" "list_all is_digit D" "W \<noteq> []" "list_all is_space W"
    "R \<noteq> []" "\<not> is_space (hd R)" "NL \<notin> set R"
  shows "re_match balloon_standard (D @ W @ R) = Some [D, R]"
proof -
  have t: "rmatch [Open, Plus Dot, Close] (Some (last W)) R ([D], None) = Some [D, R]"
    using tail_group[OF assms(5,7), of "Some (last W)" "[D]" None] by simp
  have w: "rmatch (Plus (Is Space) # [Open, Plus Dot, Close]) (Some (last D)) (W @ R) ([D], None)
           = Some [D, R]"
    using assms t by (intro plus_greedy) (auto simp: list_all_iff fold_consume_closed)
  have "rmatch (digits # Close # Plus (Is Space) # [Open, Plus Dot, Close]) None (D @ W @ R) ([], Some [])
        = Some [D, R]"
  proof (rule plus_greedy)
    show "D \<noteq> []" by fact
    show "list_all (atom_mem (Is Digit)) D" using assms(2) by (simp add: list_all_iff)
    show "W @ R = [] \<or> \<not> atom_mem (Is Digit) (hd (W @ R))"
      using assms(3,4) by (cases W) (auto dest: space_facts)
    show "rmatch (Close # Plus (Is Space) # [Open, Plus Dot, Close]) (Some (last D)) (W @ R)
            (fold consume D ([], Some [])) = Some [D, R]"
      using w by (simp add: fold_consume_open)
  qed
  then show ?thesis by (simp add: re_match_def balloon_standard_def balloon_patterns_def)
qed

lemma standard_no_space:
  assumes "list_all is_digit D" "s = [] \<or> (\<not> is_digit (hd s) \<and> \<not> is_space (hd s))"
  shows "re_match balloon_standard (D @ s) = None"
proof -
  have "rmatch (digits # Close # Plus (Is Space) # [Open, Plus Dot, Close]) None (D @ s) ([], Some [])
        = None"
  proof (rule plus_fail)
    show "list_all (atom_mem (Is Digit)) D" using assms(1) by (simp add: list_all_iff)
    show "s = [] \<or> \<not> atom_mem (Is Digit) (hd s)" using assms(2) by auto
    fix u v p c assume D: "D = u @ v"
    have "v @ s = [] \<or> \<not> atom_mem (Is Space) (hd (v @ s))"
    proof (cases v)
      case Nil
      with assms(2) show ?thesis by auto
    next
      case (Cons x v')
      with D assms(1) have "is_digit x" by simp
      with Cons show ?thesis by (auto dest: digit_facts)
    qed
    then have "rmatch (Plus (Is Space) # [Open, Plus Dot, Close]) p (v @ s) (fst c @ [case snd c of Some g \<Rightarrow> g | None \<Rightarrow> []], None) = None"
      by (rule plus_hd_fail)
    then show "rmatch (Close # Plus (Is Space) # [Open, Plus Dot, Close]) p (v @ s) c = None"
      by (cases c) simp
  qed
  then show ?thesis by (simp add: re_match_def balloon_standard_def balloon_patterns_def)
qed

lemma sep_mem: "atom_mem seps x \<Longrightarrow> \<not> is_digit x \<and> \<not> is_word x \<and> \<not> is_space x"
  by (auto simp: is_digit_def is_space_def is_word_def code_def)

lemma separator_match:
  assumes "D \<noteq> []" "list_all is_digit D" "atom_mem seps x" "list_all is_space W"
    "R \<noteq> []" "\<not> is_space (hd R)" "NL \<notin> set R"
  shows "re_match balloon_separator (D @ x # W @ R) = Some [D, R]"
proof -
  have t: "rmatch [Open, Plus Dot, Close] (if W = [] then Some x else Some (last W)) R ([D], None)
           = Some [D, R]"
    using tail_group[OF assms(5,7), of _ "[D]" None] by simp
  have w: "rmatch (Star (Is Space) # [Open, Plus Dot, Close]) (Some x) (W @ R) ([D], None)
           = Some [D, R]"
    using assms t by (intro star_greedy) (auto simp: list_all_iff fold_consume_closed)
  have "rmatch (digits # Close # One seps # Star (Is Space) # [Open, Plus Dot, Close]) None
          (D @ x # W @ R) ([], Some []) = Some [D, R]"
  proof (rule plus_greedy)
    show "D \<noteq> []" by fact
    show "list_all (atom_mem (Is Digit)) D" using assms(2) by (simp add: list_all_iff)
    show "x # W @ R = [] \<or> \<not> atom_mem (Is Digit) (hd (x # W @ R))"
      using sep_mem[OF assms(3)] by simp
    show "rmatch (Close # One seps # Star (Is Space) # [Open, Plus Dot, Close]) (Some (last D))
            (x # W @ R) (fold consume D ([], Some [])) = Some [D, R]"
      using w assms(3) by (simp add: fold_consume_open)
  qed
  then show ?thesis by (simp add: re_match_def balloon_separator_def balloon_patterns_def)
qed

lemma separator_fail:
  assumes "list_all is_digit D" "s = [] \<or> \<not> is_digit (hd s)"
    "\<And>p c. rmatch (One seps # Star (Is Space) # [Open, Plus Dot, Close]) p s c = None"
  shows "re_match balloon_separator (D @ s) = None"
proof -
  have "rmatch (digits # Close # One seps # Star (Is Space) # [Open, Plus Dot, Close]) None
          (D @ s) ([], Some []) = None"
  proof (rule plus_fail)
    show "list_all (atom_mem (Is Digit)) D" using assms(1) by (simp add: list_all_iff)
    show "s = [] \<or> \<not> atom_mem (Is Digit) (hd s)" using assms(2) by auto
    fix u v p c assume D: "D = u @ v"
    have "rmatch (One seps # Star (Is Space) # [Open, Plus Dot, Close]) p (v @ s)
            (fst c @ [case snd c of Some g \<Rightarrow> g | None \<Rightarrow> []], None) = None"
    proof (cases v)
      case Nil
      with assms(3) show ?thesis by simp
    next
      case (Cons y v')
      with D assms(1) have "is_digit y" by simp
      then have "\<not> atom_mem seps y" by (auto dest: digit_facts)
      with Cons show ?thesis by simp
    qed
    then show "rmatch (Close # One seps # Star (Is Space) # [Open, Plus Dot, Close]) p (v @ s) c
               = None"
      by (cases c) simp
  qed
  then show ?thesis by (simp add: re_match_def balloon_separator_def balloon_patterns_def)
qed

lemma separator_no_sep:
  assumes "list_all is_digit D" "s = [] \<or> (\<not> is_digit (hd s) \<and> \<not> atom_mem seps (hd s))"
  shows "re_match balloon_separator (D @ s) = None"
  using assms by (intro separator_fail one_hd_fail) auto

lemma separator_no_rest:
  assumes "list_all is_digit D" "atom_mem seps x"
  shows "re_match balloon_separator (D @ [x]) = None"
proof (rule separator_fail)
  show "list_all is_digit D" by fact
  show "[x] = [] \<or> \<not> is_digit (hd [x])" using sep_mem[OF assms(2)] by simp
  fix p c
  show "rmatch (One seps # Star (Is Space) # [Open, Plus Dot, Close]) p [x] c = None"
    using assms(2) by (simp add: tail_group_empty)
qed

lemma flexible_match:
  assumes "D \<noteq> []" "list_all is_digit D" "list_all is_space W" "list_all (atom_mem filler) F"
    "c \<noteq> NL" "\<not> is_space (hd (F @ [c]))" "\<not> is_digit (hd (W @ F @ [c]))"
  shows "re_match balloon_flexible (D @ W @ F @ [c]) = Some [D, [c]]"
proof -
  let ?prevF = "if F = [] then (if W = [] then Some (last D) else Some (last W)) else Some (last F)"
  have t: "rmatch [Open, Plus Dot, Close] ?prevF [c] ([D], None) = Some [D, [c]]"
    using tail_group[of "[c]" ?prevF "[D]" None] assms(5) by simp
  have f: "rmatch (Star filler # [Open, Plus Dot, Close])
             (if W = [] then Some (last D) else Some (last W)) (F @ [c]) ([D], None)
           = Some [D, [c]]"
  proof (cases "atom_mem filler c")
    case True
    show ?thesis
    proof (rule star_giveback)
      show "list_all (atom_mem filler) F" by fact
      show "atom_mem filler c" by fact
      show "\<And>p k. rmatch [Open, Plus Dot, Close] p [] k = None" by (rule tail_group_empty)
      show "rmatch [Open, Plus Dot, Close]
              (if F = [] then if W = [] then Some (last D) else Some (last W) else Some (last F))
              [c] (fold consume F ([D], None)) = Some [D, [c]]"
        using t by (simp add: fold_consume_closed)
    qed
  next
    case False
    show ?thesis
    proof (rule star_greedy)
      show "list_all (atom_mem filler) F" by fact
      show "[c] = [] \<or> \<not> atom_mem filler (hd [c])" using False by simp
      show "rmatch [Open, Plus Dot, Close]
              (if F = [] then if W = [] then Some (last D) else Some (last W) else Some (last F))
              [c] (fold consume F ([D], None)) = Some [D, [c]]"
        using t by (simp add: fold_consume_closed)
    qed
  qed
  have w: "rmatch (Star (Is Space) # Star filler # [Open, Plus Dot, Close]) (Some (last D))
             (W @ F @ [c]) ([D], None) = Some [D, [c]]"
  proof (rule star_greedy)
    show "list_all (atom_mem (Is Space)) W" using assms(3) by (simp add: list_all_iff)
    show "F @ [c] = [] \<or> \<not> atom_mem (Is Space) (hd (F @ [c]))" using assms(6) by simp
    show "rmatch (Star filler # [Open, Plus Dot, Close])
            (if W = [] then Some (last D) else Some (last W)) (F @ [c])
            (fold consume W ([D], None)) = Some [D, [c]]"
      using f by (simp add: fold_consume_closed)
  qed
  have "rmatch (digits # Close # Star (Is Space) # Star filler # [Open, Plus Dot, Close]) None
          (D @ W @ F @ [c]) ([], Some []) = Some [D, [c]]"
  proof (rule plus_greedy)
    show "D \<noteq> []" by fact
    show "list_all (atom_mem (Is Digit)) D" using assms(2) by (simp add: list_all_iff)
    show "W @ F @ [c] = [] \<or> \<not> atom_mem (Is Digit) (hd (W @ F @ [c]))"
      using assms(7) by simp
    show "rmatch (Close # Star (Is Space) # Star filler # [Open, Plus Dot, Close]) (Some (last D))
            (W @ F @ [c]) (fold consume D ([], Some [])) = Some [D, [c]]"
      using w by (simp add: fold_consume_open)
  qed
  then show ?thesis by (simp add: re_match_def balloon_flexible_def balloon_patterns_def)
qed

lemma strip_id: "s \<noteq> [] \<Longrightarrow> \<not> is_space (hd s) \<Longrightarrow> \<not> is_space (last s) \<Longrightarrow> strip s = s"
  by (simp add: strip_def dropWhile_hd_id hd_rev)

lemma length_strip_le: "length (strip s) \<le> length s"
proof -
  have "length (strip s) \<le> length (dropWhile is_space s)"
    unfolding strip_def using length_dropWhile_le[of is_space "rev (dropWhile is_space s)"]
    by simp
  also have "\<dots> \<le> length s" by (rule length_dropWhile_le)
  finally show ?thesis .
qed

lemma standard_short_shape:
  assumes "NL \<notin> set line" "line = [] \<or> \<not> is_space (last line)"
    "re_match balloon_standard line = Some m" "length (strip (m ! 1)) \<le> 1"
  shows "\<exists>D W c. D \<noteq> [] \<and> list_all is_digit D \<and> W \<noteq> [] \<and> list_all is_space W
           \<and> \<not> is_space c \<and> c \<noteq> NL \<and> line = D @ W @ [c]"
proof -
  define D where "D = takeWhile is_digit line"
  define rest where "rest = dropWhile is_digit line"
  define W where "W = takeWhile is_space rest"
  define R where "R = dropWhile is_space rest"
  have line: "line = D @ rest" and rest: "rest = W @ R"
    by (simp_all add: D_def rest_def W_def R_def)
  have digD: "list_all is_digit D" and spW: "list_all is_space W"
    by (auto simp: D_def W_def list_all_iff dest: set_takeWhileD)
  have hrest: "rest = [] \<or> \<not> is_digit (hd rest)"
    unfolding rest_def using hd_dropWhile[of is_digit line] by auto
  have hR: "R = [] \<or> \<not> is_space (hd R)"
    unfolding R_def using hd_dropWhile[of is_space rest] by auto
  have D: "D \<noteq> []"
  proof
    assume "D = []"
    with line hrest have "line = [] \<or> \<not> is_digit (hd line)" by auto
    from needs_digit(1)[OF this] assms(3) show False by simp
  qed
  have W: "W \<noteq> []"
  proof
    assume "W = []"
    with rest hR hrest have "rest = [] \<or> (\<not> is_digit (hd rest) \<and> \<not> is_space (hd rest))" by auto
    from standard_no_space[OF digD this] assms(3) line show False by simp
  qed
  have R: "R \<noteq> []"
  proof
    assume "R = []"
    with line rest W have "last line = last W" by simp
    moreover have "is_space (last W)" using W spW by (auto simp: list_all_iff)
    ultimately show False using assms(2) line D by auto
  qed
  from R hR have hR': "\<not> is_space (hd R)" by simp
  have nl: "NL \<notin> set R" using assms(1) line rest by auto
  from standard_match[OF D digD W spW R hR' nl] assms(3) line rest have m: "m = [D, R]" by simp
  have "last R = last line" using line rest R by simp
  with assms(2) D line have "\<not> is_space (last R)" by auto
  with R hR' have "strip R = R" by (intro strip_id)
  with m assms(4) have "length R \<le> 1" by simp
  with R obtain c where c: "R = [c]" by (cases R) auto
  with hR' nl have "\<not> is_space c" "c \<noteq> NL" by auto
  with D digD W spW line rest c show ?thesis by blast
qed

lemma separator_short_shape:
  assumes "NL \<notin> set line" "line = [] \<or> \<not> is_space (last line)"
    "re_match balloon_separator line = Some m" "length (strip (m ! 1)) \<le> 1"
  shows "\<exists>D x W c. D \<noteq> [] \<and> list_all is_digit D \<and> atom_mem seps x \<and> list_all is_space W
           \<and> \<not> is_space c \<and> c \<noteq> NL \<and> line = D @ x # W @ [c]"
proof -
  define D where "D = takeWhile is_digit line"
  define rest where "rest = dropWhile is_digit line"
  have line: "line = D @ rest" by (simp add: D_def rest_def)
  have digD: "list_all is_digit D"
    by (auto simp: D_def list_all_iff dest: set_takeWhileD)
  have hrest: "rest = [] \<or> \<not> is_digit (hd rest)"
    unfolding rest_def using hd_dropWhile[of is_digit line] by auto
  have D: "D \<noteq> []"
  proof
    assume "D = []"
    with line hrest have "line = [] \<or> \<not> is_digit (hd line)" by auto
    from needs_digit(2)[OF this] assms(3) show False by simp
  qed
  have "\<not> (rest = [] \<or> \<not> atom_mem seps (hd rest))"
  proof
    assume "rest = [] \<or> \<not> atom_mem seps (hd rest)"
    with hrest have "rest = [] \<or> (\<not> is_digit (hd rest) \<and> \<not> atom_mem seps (hd rest))" by auto
    from separator_no_sep[OF digD this] assms(3) line show False by simp
  qed
  then obtain x rest' where r: "rest = x # rest'" and x: "atom_mem seps x"
    by (cases rest) auto
  define W where "W = takeWhile is_space rest'"
  define R where "R = dropWhile is_space rest'"
  have rest': "rest' = W @ R" by (simp add: W_def R_def)
  have spW: "list_all is_space W"
    by (auto simp: W_def list_all_iff dest: set_takeWhileD)
  have hR: "R = [] \<or> \<not> is_space (hd R)"
    unfolding R_def using hd_dropWhile[of is_space rest'] by auto
  have R: "R \<noteq> []"
  proof
    assume R: "R = []"
    have "W = []"
    proof (rule ccontr)
      assume W: "W \<noteq> []"
      with line r rest' R have "last line = last W" by simp
      moreover have "is_space (last W)" using W spW by (auto simp: list_all_iff)
      ultimately show False using assms(2) line D by auto
    qed
    with R line r rest' have "line = D @ [x]" by simp
    with separator_no_rest[OF digD x] assms(3) show False by simp
  qed
  from R hR have hR': "\<not> is_space (hd R)" by simp
  have nl: "NL \<notin> set R" using assms(1) line r rest' by auto
  from separator_match[OF D digD x spW R hR' nl] assms(3) line r rest' have m: "m = [D, R]" by simp
  have "last R = last line" using line r rest' R by simp
  with assms(2) D line have "\<not> is_space (last R)" by auto
  with R hR' have "strip R = R" by (intro strip_id)
  with m assms(4) have "length R \<le> 1" by simp
  with R obtain c where c: "R = [c]" by (cases R) auto
  with hR' nl have "\<not> is_space c" "c \<noteq> NL" by auto
  with D digD x spW line r rest' c show ?thesis by blast
qed

lemma first_short_all_short:
  assumes "NL \<notin> set line" "line = [] \<or> \<not> is_space (last line)"
    "first_match balloon_patterns line = Some m" "length (strip (m ! 1)) \<le> 1"
  shows "\<forall>p\<in>set balloon_patterns. \<forall>m'. re_match p line = Some m'
           \<longrightarrow> length (strip (m' ! 1)) \<le> 1"
proof -
  have short1: "length (strip ([D, [c]] ! 1)) \<le> 1" for D :: string and c
    using length_strip_le[of "[c]"] by simp
  consider (p1) "re_match balloon_standard line = Some m"
    | (p2) "re_match balloon_standard line = None" "re_match balloon_parens line = Some m"
    | (p3) "re_match balloon_standard line = None" "re_match balloon_parens line = None" "re_match balloon_separator line = Some m"
    | (p4) "re_match balloon_standard line = None" "re_match balloon_parens line = None" "re_match balloon_separator line = None"
        "re_match balloon_flexible line = Some m"
    using assms(3) by (auto simp: balloon_patterns_def split: option.splits)
  then show ?thesis
  proof cases
    case p1
    from standard_short_shape[OF assms(1,2) p1 assms(4)] obtain D W c where
      s: "D \<noteq> []" "list_all is_digit D" "W \<noteq> []" "list_all is_space W"
         "\<not> is_space c" "c \<noteq> NL" "line = D @ W @ [c]" by blast
    have "is_digit (hd line)" using s by (cases D) auto
    then have "line = [] \<or> hd line \<noteq> CHR ''(''" by (auto dest: digit_facts)
    then have 2: "re_match balloon_parens line = None" by (rule needs_paren)
    have "is_space (hd (W @ [c]))" using s(3,4) by (cases W) auto
    then have "W @ [c] = [] \<or> (\<not> is_digit (hd (W @ [c])) \<and> \<not> atom_mem seps (hd (W @ [c])))"
      using space_facts by auto
    from separator_no_sep[OF s(2) this] s(7) have 3: "re_match balloon_separator line = None" by simp
    have "re_match balloon_flexible (D @ W @ [] @ [c]) = Some [D, [c]]"
      using s \<open>is_space (hd (W @ [c]))\<close>
      by (intro flexible_match) (auto dest: space_facts)
    with s(7) have 4: "re_match balloon_flexible line = Some [D, [c]]" by simp
    from p1 2 3 4 assms(4) short1 show ?thesis
      by (auto simp: balloon_patterns_def)
  next
    case p2
    have "\<not> (line = [] \<or> hd line \<noteq> CHR ''('')"
      using needs_paren[of line] p2(2) by auto
    then have "line = [] \<or> \<not> is_digit (hd line)" by (auto dest: digit_facts)
    from needs_digit[OF this] p2 assms(4) show ?thesis
      by (auto simp: balloon_patterns_def)
  next
    case p3
    from separator_short_shape[OF assms(1,2) p3(3) assms(4)] obtain D x W c where
      s: "D \<noteq> []" "list_all is_digit D" "atom_mem seps x" "list_all is_space W"
         "\<not> is_space c" "c \<noteq> NL" "line = D @ x # W @ [c]" by blast
    have f: "list_all (atom_mem filler) (x # W)"
      using sep_mem[OF s(3)] s(4) space_facts by (auto simp: list_all_iff)
    have "re_match balloon_flexible (D @ [] @ (x # W) @ [c]) = Some [D, [c]]"
      using s(1,2,6) f sep_mem[OF s(3)]
      by (intro flexible_match) auto
    with s(7) have 4: "re_match balloon_flexible line = Some [D, [c]]" by simp
    from p3 4 assms(4) short1 show ?thesis
      by (auto simp: balloon_patterns_def)
  next
    case p4
    with assms(4) show ?thesis by (auto simp: balloon_patterns_def)
  qed
qed

section \<open>The claims\<close>

subsection \<open>The default tolerance\<close>

text \<open>
  C1. With the default tolerance set to \<open>\<plusminus>0.20\<close> in the configuration, a line without
  any tolerance pattern still gets the tolerance \<open>\<plusminus>0.10\<close>: the constant written in
  \<open>parse_dimension\<close>, not the configured value.
\<close>

theorem configured_default_tolerance_unused:
  "app_data \<lparr>show_preview = True, default_tolerance = PM # ''0.20'', include_page_ref = True\<rparr>
     [\<lparr>page_text = ''5 Overall length'', page_dict = None, page_blocks = []\<rparr>]
   = Inr [\<lparr>sr_no = 5, parameter = ''Length'', nominal_value = None,
           tolerance = PM # ''0.10'', type_cs = [], instrument = ''DVC'',
           page_ref = ''Page 1''\<rparr>]"
  by code_simp

subsection \<open>One extraction method per page, not per document\<close>

text \<open>
  C2, as the claim states it, fails. On page 1 of this document only the \<open>dict\<close> form
  holds a callout, on page 2 the plain text does. The source returns both rows, the
  first recovered by the \<open>dict\<close> method and the second by the plain-text method; the
  document-wide policy of the specification returns the plain-text row alone.
\<close>

theorem methods_mixed_across_pages:
  "extract_dimensions_from_pdf
     [\<lparr>page_text = [], page_dict = Some [Some [Some [Some ''1 abc'']]], page_blocks = []\<rparr>,
      \<lparr>page_text = ''2 def'', page_dict = None, page_blocks = []\<rparr>]
   = Inr [\<lparr>sr_no = 1, parameter = ''Length'', nominal_value = None,
           tolerance = PM # ''0.10'', type_cs = [], instrument = ''DVC'',
           page_ref = ''Page 1''\<rparr>,
          \<lparr>sr_no = 2, parameter = ''Length'', nominal_value = None,
           tolerance = PM # ''0.10'', type_cs = [], instrument = ''DVC'',
           page_ref = ''Page 2''\<rparr>]
   \<and> spec_extract
     [\<lparr>page_text = [], page_dict = Some [Some [Some [Some ''1 abc'']]], page_blocks = []\<rparr>,
      \<lparr>page_text = ''2 def'', page_dict = None, page_blocks = []\<rparr>]
   = Inr [\<lparr>sr_no = 2, parameter = ''Length'', nominal_value = None,
           tolerance = PM # ''0.10'', type_cs = [], instrument = ''DVC'',
           page_ref = ''Page 2''\<rparr>]"
  by code_simp

text \<open>
  C2, amended. Within one page the extraction commits to one method. Each of the three
  methods (plain text, \<open>dict\<close>, blocks) gives its rows for the page without raising;
  whatever was collected before the page, the rows the page adds are the rows of exactly
  one method; and on a page reached with no row collected yet, they are the rows of the
  first method, in this order, that gives any.
\<close>

theorem page_rows_from_one_method:
  "\<exists>r1 r2 r3 rows.
      process_lines (splitlines (page_text p)) page_num [] = Inr r1
    \<and> process_lines (dict_lines (page_dict p)) page_num [] = Inr r2
    \<and> process_lines (block_lines (page_blocks p)) page_num [] = Inr r3
    \<and> methods_loop (text_methods p) page_num data = Inr (data @ rows)
    \<and> (rows = r1 \<or> rows = r2 \<or> rows = r3)
    \<and> (data = [] \<longrightarrow> rows = (if r1 \<noteq> [] then r1 else if r2 \<noteq> [] then r2 else r3))"
proof -
  obtain r1 where r1: "\<And>d. process_lines (splitlines (page_text p)) page_num d = Inr (d @ r1)"
    using process_lines_rows[of "splitlines (page_text p)" page_num] by blast
  obtain r2 where r2: "\<And>d. process_lines (dict_lines (page_dict p)) page_num d = Inr (d @ r2)"
    using process_lines_rows[of "dict_lines (page_dict p)" page_num] by blast
  obtain r3 where r3: "\<And>d. process_lines (block_lines (page_blocks p)) page_num d = Inr (d @ r3)"
    using process_lines_rows[of "block_lines (page_blocks p)" page_num] by blast
  let ?rows = "if data \<noteq> [] \<or> r1 \<noteq> [] then r1 else if r2 \<noteq> [] then r2 else r3"
  have "methods_loop (text_methods p) page_num data = Inr (data @ ?rows)"
    unfolding text_methods_def by (rule methods_loop_three[OF r1 r2 r3])
  moreover have "?rows = r1 \<or> ?rows = r2 \<or> ?rows = r3" by simp
  moreover have "data = [] \<longrightarrow> ?rows = (if r1 \<noteq> [] then r1 else if r2 \<noteq> [] then r2 else r3)"
    by simp
  ultimately show ?thesis using r1[of "[]"] r2[of "[]"] r3[of "[]"]
    by (intro exI[of _ r1] exI[of _ r2] exI[of _ r3] exI[of _ ?rows]) simp
qed

theorem page_rows_from_one_method_witness:
  "methods_loop
     (text_methods
        \<lparr>page_text = ''Detail A'', page_dict = Some [Some [Some [Some ''1 abc'']]],
         page_blocks = [Some ''2 def'']\<rparr>) 1 []
   = Inr [\<lparr>sr_no = 1, parameter = ''Length'', nominal_value = None,
           tolerance = PM # ''0.10'', type_cs = [], instrument = ''DVC'',
           page_ref = ''Page 1''\<rparr>]"
proof -
  let ?p = "\<lparr>page_text = ''Detail A'', page_dict = Some [Some [Some [Some ''1 abc'']]],
             page_blocks = [Some ''2 def'']\<rparr>"
  let ?row = "\<lparr>sr_no = 1, parameter = ''Length'', nominal_value = None,
           tolerance = PM # ''0.10'', type_cs = [], instrument = ''DVC'',
           page_ref = ''Page 1''\<rparr>"
  have e1: "process_lines (splitlines (page_text ?p)) 1 [] = Inr []" by code_simp
  have e2: "process_lines (dict_lines (page_dict ?p)) 1 [] = Inr [?row]" by code_simp
  from page_rows_from_one_method[of ?p 1 "[]"] obtain r1 r2 r3 rows where
    r1: "process_lines (splitlines (page_text ?p)) 1 [] = Inr r1" and
    r2: "process_lines (dict_lines (page_dict ?p)) 1 [] = Inr r2" and
    m: "methods_loop (text_methods ?p) 1 [] = Inr ([] @ rows)" and
    rows: "rows = (if r1 \<noteq> [] then r1 else if r2 \<noteq> [] then r2 else r3)"
    by blast
  from r1 e1 have "r1 = []" by simp
  moreover from r2 e2 have "r2 = [?row]" by simp
  ultimately have "rows = [?row]" using rows by simp
  with m show ?thesis by simp
qed

subsection \<open>Lines whose remainder is too short\<close>

text \<open>
  C3, as the claim states it, fails. The blocks method hands over the text of a block
  with its line feeds. For the block \<open>1 -\<close>, line feed, \<open>abc\<close> the first pattern that
  matches is the standard one and it captures the remainder \<open>-\<close>, of length 1; the loop
  goes on, and the flexible pattern, whose filler runs over the line feed, captures
  \<open>abc\<close> and produces a row.
\<close>

theorem short_remainder_later_pattern:
  "first_match balloon_patterns (strip (''1 -'' @ NL # ''abc'')) = Some [''1'', ''-'']
   \<and> length (strip ([''1'', ''-''] ! 1)) \<le> 1
   \<and> extract_dimensions_from_pdf
        [\<lparr>page_text = [], page_dict = None, page_blocks = [Some (''1 -'' @ NL # ''abc'')]\<rparr>]
      = Inr [\<lparr>sr_no = 1, parameter = ''Length'', nominal_value = None,
              tolerance = PM # ''0.10'', type_cs = [], instrument = ''DVC'',
              page_ref = ''Page 1''\<rparr>]"
  by code_simp

text \<open>
  C3, amended. For every input line that contains no line feed: if the first pattern
  that matches leaves a captured remainder whose trimmed length is at most 1, the line
  is discarded and adds no row, through no later pattern either.
\<close>

theorem short_remainder_discards_line:
  assumes "NL \<notin> set l" "first_match balloon_patterns (strip l) = Some m"
    "length (strip (m ! 1)) \<le> 1"
  shows "process_lines [l] page_num data = Inr data"
proof -
  have nl: "NL \<notin> set (strip l)"
    using assms(1) by (auto simp: strip_def dest!: set_dropWhileD)
  have "strip l = [] \<or> \<not> is_space (last (strip l))"
    using hd_dropWhile[of is_space "rev (dropWhile is_space l)"]
    by (auto simp: strip_def last_rev)
  from first_short_all_short[OF nl this assms(2,3)]
  have "\<forall>p\<in>set balloon_patterns. \<forall>m'. re_match p (strip l) = Some m'
           \<longrightarrow> length (strip (m' ! 1)) \<le> 1" .
  with line_discarded_iff[of "strip l" page_num]
  have "balloon_loop balloon_patterns (strip l) page_num = Inr None" by blast
  then show ?thesis by (simp add: Let_def)
qed

theorem short_remainder_discards_line_witness:
  "process_lines [''(7)  x''] 1 [] = Inr []"
proof -
  have 1: "NL \<notin> set ''(7)  x''" by simp
  have 2: "first_match balloon_patterns (strip ''(7)  x'') = Some [''7'', ''x'']" by code_simp
  have 3: "length (strip ([''7'', ''x''] ! 1)) \<le> 1" by code_simp
  from short_remainder_discards_line[OF 1 2 3] show ?thesis .
qed

subsection \<open>Fractions\<close>

text \<open>
  C4. The whole-number pattern stands before the two fraction patterns and matches the
  first digits of any fraction, so the descriptive text \<open>3/4\<close> gets the nominal value 3
  (not 0.75) and \<open>1 1/2\<close> gets 1 (not 1.5).
\<close>

theorem fraction_nominal_is_leading_integer:
  "parse_dimension ''3/4'' = Inr (''Length'', Some 3, PM # ''0.10'', [], ''DVC'')
   \<and> parse_dimension ''1 1/2'' = Inr (''Length'', Some 1, PM # ''0.10'', [], ''DVC'')"
  by code_simp

subsection \<open>Diameter before angle\<close>

text \<open>
  C5. A descriptive text that carries a diameter marker (the diameter sign, \<open>DIA\<close>,
  \<open>DIAM\<close>, or \<open>DIAMETER\<close> in any case) is classified as Diameter with instrument DVC,
  whatever else it contains, a degree sign included: the diameter test is the first of
  the chain.
\<close>

theorem diameter_has_priority:
  assumes "diameter_mark line"
  shows "\<exists>nominal tol typ. parse_dimension line = Inr (''Diameter'', nominal, tol, typ, ''DVC'')"
proof -
  from assms have "classify (strip line) = (''Diameter'', ''DVC'')"
    by (simp add: classify_def diameter_mark_strip)
  with parse_dimension_Inr[of line] show ?thesis by auto
qed

theorem diameter_has_priority_witness:
  "\<exists>nominal tol typ.
     parse_dimension (DIAM # ''12 x 45'' @ [DEG]) = Inr (''Diameter'', nominal, tol, typ, ''DVC'')"
proof -
  have "diameter_mark (DIAM # ''12 x 45'' @ [DEG])" by code_simp
  then show ?thesis by (rule diameter_has_priority)
qed

subsection \<open>The tolerance \<open>\<plusminus>0.05\<close>\<close>

text \<open>
  C6, as the claim states it, fails: the tolerance is the leftmost match of the first
  pattern that matches. The text \<open>\<plusminus>0.1 \<plusminus>0.05\<close> contains \<open>\<plusminus>0.05\<close> and gets the
  tolerance \<open>\<plusminus>0.1\<close>.
\<close>

theorem earlier_tolerance_wins:
  "parse_dimension (PM # ''0.1 '' @ PM # ''0.05'')
   = Inr (''Length'', Some 0.1, PM # ''0.1'', [], ''DVC'')"
  by code_simp

text \<open>
  C6, amended. When no plus-minus sign stands before the \<open>\<plusminus>0.05\<close> and no digit
  directly after it, the tolerance is \<open>\<plusminus>0.05\<close>, whatever else the text contains.
\<close>

theorem first_pm_decimal_is_tolerance:
  assumes "PM \<notin> set pre" "post = [] \<or> \<not> is_digit (hd post)"
  shows "\<exists>desc nominal typ inst.
           parse_dimension (pre @ PM # ''0.05'' @ post)
           = Inr (desc, nominal, PM # ''0.05'', typ, inst)"
proof -
  let ?pre = "dropWhile is_space pre" and ?post = "rev (dropWhile is_space (rev post))"
  have st: "strip (pre @ (PM # ''0.05'') @ post) = ?pre @ (PM # ''0.05'') @ ?post"
    by (rule strip_mid) (auto simp: is_space_def code_def)
  have 1: "PM \<notin> set ?pre" using assms(1) by (auto dest: set_dropWhileD)
  have 2: "?post = [] \<or> \<not> is_digit (hd ?post)" using assms(2) by (rule rstrip_hd)
  from pm_decimal_tol[OF 1 2] st
  have "tol_loop tol_patterns (strip (pre @ PM # ''0.05'' @ post)) (PM # ''0.10'')
        = Inr (PM # ''0.05'')"
    by simp
  with parse_dimension_Inr[of "pre @ PM # ''0.05'' @ post"] show ?thesis by auto
qed

theorem first_pm_decimal_is_tolerance_witness:
  "\<exists>desc nominal typ inst.
     parse_dimension (''R12.5 +0.2 '' @ PM # ''0.05'' @ '' S'')
     = Inr (desc, nominal, PM # ''0.05'', typ, inst)"
proof -
  have 1: "PM \<notin> set ''R12.5 +0.2 ''" by simp
  have 2: "'' S'' = [] \<or> \<not> is_digit (hd '' S'')" by (simp add: is_digit_def code_def)
  from first_pm_decimal_is_tolerance[OF 1 2] show ?thesis .
qed

subsection \<open>Item numbers\<close>

text \<open>
  C7, as the claim states it, fails: the line \<open>0 abc\<close> yields a row with item number 0.
\<close>

theorem item_number_zero:
  "extract_dimensions_from_pdf
     [\<lparr>page_text = ''0 abc'', page_dict = None, page_blocks = []\<rparr>]
   = Inr [\<lparr>sr_no = 0, parameter = ''Length'', nominal_value = None,
           tolerance = PM # ''0.10'', type_cs = [], instrument = ''DVC'',
           page_ref = ''Page 1''\<rparr>]"
  by code_simp

text \<open>
  C7, amended. The extraction of any document returns a list of rows (no exception
  leaves it), and every row has an item number that is a non-negative integer; zero is
  possible.
\<close>

theorem item_number_nonnegative:
  "\<exists>rows. extract_dimensions_from_pdf doc = Inr rows \<and> list_all (\<lambda>r. 0 \<le> sr_no r) rows"
  unfolding extract_dimensions_from_pdf_def
  by (rule pages_loop_rows) simp

theorem item_number_nonnegative_witness:
  "\<exists>rows. extract_dimensions_from_pdf
            [\<lparr>page_text = ''0 abc'', page_dict = None, page_blocks = [Some ''(12) R5'']\<rparr>]
          = Inr rows \<and> list_all (\<lambda>r. 0 \<le> sr_no r) rows"
  by (rule item_number_nonnegative)

subsection \<open>\<open>parse_dimension\<close> is total\<close>

text \<open>
  C8. For every input string \<open>parse_dimension\<close> returns its five results and raises
  nothing. Each sub-parse that misses gives its default: no nominal pattern found, no
  nominal value; no tolerance pattern found, the tolerance \<open>\<plusminus>0.10\<close>; none of the seven
  type tests true, Length with DVC; none of the three flag tests true, the empty flag.
  A match whose conversion raises ValueError or ZeroDivisionError counts as no match:
  the nominal loop goes on with the remaining patterns.
\<close>

theorem parse_dimension_total:
  "\<exists>desc nominal tol typ inst.
      parse_dimension line = Inr (desc, nominal, tol, typ, inst)
    \<and> (list_all (\<lambda>p. re_search p (strip line) = None) nominal_patterns \<longrightarrow> nominal = None)
    \<and> (list_all (\<lambda>p. re_search p (strip line) = None) tol_patterns \<longrightarrow> tol = PM # ''0.10'')
    \<and> (\<not> diameter_mark (strip line) \<and> \<not> radius_mark (strip line) \<and> \<not> thread_mark (strip line)
        \<and> \<not> chamfer_mark (strip line) \<and> \<not> angle_mark (strip line)
        \<and> \<not> roughness_mark (strip line) \<and> \<not> runout_mark (strip line)
        \<longrightarrow> desc = ''Length'' \<and> inst = ''DVC'')
    \<and> (\<not> critical_mark (strip line) \<and> \<not> spec_mark (strip line) \<and> \<not> key_mark (strip line)
        \<longrightarrow> typ = [])
    \<and> (\<forall>p rest m. re_search p (strip line) = Some m
          \<and> (nominal_of_match m = Inl ValueError \<or> nominal_of_match m = Inl ZeroDivisionError)
          \<longrightarrow> nominal_loop (p # rest) (strip line) = nominal_loop rest (strip line))"
proof -
  obtain nominal tol where n: "nominal_loop nominal_patterns (strip line) = Inr nominal"
    and t: "tol_loop tol_patterns (strip line) (PM # ''0.10'') = Inr tol"
    and p: "parse_dimension line =
         Inr (fst (classify (strip line)), nominal, tol, inspection_type (strip line),
              snd (classify (strip line)))"
    using parse_dimension_Inr[of line] by blast
  have 1: "list_all (\<lambda>p. re_search p (strip line) = None) nominal_patterns \<longrightarrow> nominal = None"
    using n nominal_loop_miss[of "strip line" nominal_patterns] by auto
  have 2: "list_all (\<lambda>p. re_search p (strip line) = None) tol_patterns \<longrightarrow> tol = PM # ''0.10''"
    using t tol_loop_miss[of "strip line" tol_patterns "PM # ''0.10''"] by auto
  have 3: "\<not> diameter_mark (strip line) \<and> \<not> radius_mark (strip line) \<and> \<not> thread_mark (strip line)
        \<and> \<not> chamfer_mark (strip line) \<and> \<not> angle_mark (strip line)
        \<and> \<not> roughness_mark (strip line) \<and> \<not> runout_mark (strip line)
        \<longrightarrow> fst (classify (strip line)) = ''Length'' \<and> snd (classify (strip line)) = ''DVC''"
    by (simp add: classify_def)
  have 4: "\<not> critical_mark (strip line) \<and> \<not> spec_mark (strip line) \<and> \<not> key_mark (strip line)
        \<longrightarrow> inspection_type (strip line) = []"
    by (simp add: inspection_type_def)
  have 5: "\<forall>p rest m. re_search p (strip line) = Some m
          \<and> (nominal_of_match m = Inl ValueError \<or> nominal_of_match m = Inl ZeroDivisionError)
          \<longrightarrow> nominal_loop (p # rest) (strip line) = nominal_loop rest (strip line)"
    by auto
  from p 1 2 3 4 5 show ?thesis by blast
qed

theorem parse_dimension_total_witness:
  "parse_dimension ''Overall length'' = Inr (''Length'', None, PM # ''0.10'', [], ''DVC'')
   \<and> nominal_loop [nominal_patterns ! 2] ''1/0'' = Inr None"
proof -
  let ?l = "''Overall length''"
  have h1: "list_all (\<lambda>p. re_search p (strip ?l) = None) nominal_patterns" by code_simp
  have h2: "list_all (\<lambda>p. re_search p (strip ?l) = None) tol_patterns" by code_simp
  have h3: "\<not> diameter_mark (strip ?l) \<and> \<not> radius_mark (strip ?l) \<and> \<not> thread_mark (strip ?l)
        \<and> \<not> chamfer_mark (strip ?l) \<and> \<not> angle_mark (strip ?l)
        \<and> \<not> roughness_mark (strip ?l) \<and> \<not> runout_mark (strip ?l)" by code_simp
  have h4: "\<not> critical_mark (strip ?l) \<and> \<not> spec_mark (strip ?l) \<and> \<not> key_mark (strip ?l)"
    by code_simp
  from parse_dimension_total[of ?l] h1 h2 h3 h4
  have a: "parse_dimension ?l = Inr (''Length'', None, PM # ''0.10'', [], ''DVC'')"
    by auto
  have s: "strip ''1/0'' = ''1/0''" by code_simp
  have m: "re_search (nominal_patterns ! 2) ''1/0'' = Some [''1/0'']" by code_simp
  have z: "nominal_of_match [''1/0''] = Inl ZeroDivisionError" by code_simp
  from parse_dimension_total[of "''1/0''"] s m z
  have "nominal_loop [nominal_patterns ! 2] ''1/0'' = nominal_loop [] ''1/0''"
    by auto
  with a show ?thesis by simp
qed

subsection \<open>Worked lines\<close>

text \<open>
  C9. A document whose only page has the plain text \<open>1 25.4 \<plusminus>0.1 C\<close> yields exactly
  one row: item number 1, parameter Length, nominal value 25.4, tolerance \<open>\<plusminus>0.1\<close>,
  inspection type C, instrument DVC (found on page 1).
\<close>

theorem example_line_record:
  "extract_dimensions_from_pdf
     [\<lparr>page_text = ''1 25.4 '' @ [PM] @ ''0.1 C'', page_dict = None, page_blocks = []\<rparr>]
   = Inr [\<lparr>sr_no = 1, parameter = ''Length'', nominal_value = Some 25.4,
           tolerance = PM # ''0.1'', type_cs = ''C'', instrument = ''DVC'',
           page_ref = ''Page 1''\<rparr>]"
  by code_simp

text \<open>
  C10. The nominal patterns also see the digits of the tolerance: for the descriptive
  text \<open>\<plusminus>0.05\<close>, whose only number is the tolerance, the nominal value is 0.05 and not
  absent.
\<close>

theorem nominal_taken_from_tolerance:
  "parse_dimension (PM # ''0.05'')
   = Inr (''Length'', Some 0.05, PM # ''0.05'', [], ''DVC'')"
  by code_simp

end
